theory Spec2Isabelle
  imports Main "HOL-Library.Char_ord"
begin

section \<open>Go run-time values used by the HTML renderer\<close>

text \<open>
  A Go \<open>[]byte\<close> is modelled as a \<open>string\<close> (a list of 8-bit characters), a Go
  \<open>int\<close> index as an \<open>int\<close> (no index of this code leaves the range
  \<open>-1 .. len + 1\<close>, so the 64-bit wrap-around never happens), and a run-time panic as the
  left summand of the result.
\<close>

datatype panic =
    IndexOutOfRange
  | SliceBoundsOutOfRange
  | NilDereference
  | InterfaceConversion

type_synonym 'a res = "panic + 'a"

definition bnd :: "'a res \<Rightarrow> ('a \<Rightarrow> 'b res) \<Rightarrow> 'b res" where
  \<comment> \<open>Sequencing: a panic of the first computation ends the whole call.\<close>
  "bnd m f = (case m of Inl e \<Rightarrow> Inl e | Inr x \<Rightarrow> f x)"

definition index :: "string \<Rightarrow> int \<Rightarrow> char res" where
  \<comment> \<open>The Go expression \<open>s[i]\<close>.\<close>
  "index s i = (if 0 \<le> i \<and> i < int (length s) then Inr (s ! nat i) else Inl IndexOutOfRange)"

definition slice :: "string \<Rightarrow> int \<Rightarrow> int \<Rightarrow> string res" where
  \<comment> \<open>The Go expression \<open>s[lo:hi]\<close>. The upper bound is checked against the length of
      \<open>s\<close>; Go checks it against the capacity, which is at least the length, and the slice
      expressions of \<open>Write\<close> and \<open>RawWrite\<close> never reach beyond the length.\<close>
  "slice s lo hi =
     (if 0 \<le> lo \<and> lo \<le> hi \<and> hi \<le> int (length s)
      then Inr (take (nat (hi - lo)) (drop (nat lo) s))
      else Inl SliceBoundsOutOfRange)"

section \<open>The text engine\<close>

subsection \<open>Helpers of package util\<close>

definition IsPunct :: "char \<Rightarrow> bool" where
  \<comment> \<open>Modelled from the spec: \<open>util.IsPunct\<close> is not among the sources; the spec calls it
      the test for an ASCII punctuation character.\<close>
  "IsPunct c =
     ((CHR 0x21 \<le> c \<and> c \<le> CHR 0x2F) \<or> (CHR 0x3A \<le> c \<and> c \<le> CHR 0x40)
      \<or> (CHR 0x5B \<le> c \<and> c \<le> CHR 0x60) \<or> (CHR 0x7B \<le> c \<and> c \<le> CHR 0x7E))"

definition IsNumeric :: "char \<Rightarrow> bool" where
  \<comment> \<open>Modelled from the spec: \<open>util.IsNumeric\<close> is not among the sources; a decimal digit.\<close>
  "IsNumeric c = (CHR ''0'' \<le> c \<and> c \<le> CHR ''9'')"

definition IsHexDecimal :: "char \<Rightarrow> bool" where
  \<comment> \<open>Modelled from the spec: \<open>util.IsHexDecimal\<close> is not among the sources; a hexadecimal
      digit.\<close>
  "IsHexDecimal c =
     ((CHR ''0'' \<le> c \<and> c \<le> CHR ''9'') \<or> (CHR ''a'' \<le> c \<and> c \<le> CHR ''f'')
      \<or> (CHR ''A'' \<le> c \<and> c \<le> CHR ''F''))"

definition IsAlphaNumeric :: "char \<Rightarrow> bool" where
  \<comment> \<open>Modelled from the spec: \<open>util.IsAlphaNumeric\<close> is not among the sources; an ASCII
      letter or a decimal digit.\<close>
  "IsAlphaNumeric c =
     ((CHR ''a'' \<le> c \<and> c \<le> CHR ''z'') \<or> (CHR ''A'' \<le> c \<and> c \<le> CHR ''Z'')
      \<or> (CHR ''0'' \<le> c \<and> c \<le> CHR ''9''))"

definition ToValidRune :: "int \<Rightarrow> int" where
  \<comment> \<open>Modelled from the spec: \<open>util.ToValidRune\<close> is not among the sources; a code point
      outside the valid range (negative, a surrogate, above U+10FFFF) becomes U+FFFD.\<close>
  "ToValidRune v =
     (if 0 \<le> v \<and> v \<le> 0x10FFFF \<and> \<not> (0xD800 \<le> v \<and> v \<le> 0xDFFF) then v else 0xFFFD)"

type_synonym entities = "string \<Rightarrow> string option"
  \<comment> \<open>\<open>util.LookUpHTML5EntityByName\<close>: the table is not among the sources and is a
      parameter; \<open>Some cs\<close> is a found entity with \<open>Characters = cs\<close>.\<close>

subsection \<open>The output sink\<close>

text \<open>
  \<open>util.BufWriter\<close> is an append-only sink; its state is the bytes written so far. The
  code ignores the error results of the write operations.
\<close>

definition WriteString :: "string \<Rightarrow> string \<Rightarrow> string" where
  "WriteString w s = w @ s"

definition WriteByte :: "string \<Rightarrow> char \<Rightarrow> string" where
  "WriteByte w c = w @ [c]"

definition encodeRune :: "int \<Rightarrow> string" where
  \<comment> \<open>UTF-8 of a code point, as \<open>utf8.EncodeRune\<close> of the Go library documents it: an
      invalid code point is written as U+FFFD.\<close>
  "encodeRune r =
     (if 0 \<le> r \<and> r \<le> 0x7F then [char_of r]
      else if 0 \<le> r \<and> r \<le> 0x7FF then
        [char_of (0xC0 + r div 64), char_of (0x80 + r mod 64)]
      else if r < 0 \<or> 0x10FFFF < r \<or> (0xD800 \<le> r \<and> r \<le> 0xDFFF) then
        [char_of (0xEF :: int), char_of (0xBF :: int), char_of (0xBD :: int)]
      else if r \<le> 0xFFFF then
        [char_of (0xE0 + r div 4096), char_of (0x80 + (r div 64) mod 64), char_of (0x80 + r mod 64)]
      else
        [char_of (0xF0 + r div 262144), char_of (0x80 + (r div 4096) mod 64),
         char_of (0x80 + (r div 64) mod 64), char_of (0x80 + r mod 64)])"

definition WriteRune :: "string \<Rightarrow> int \<Rightarrow> string" where
  "WriteRune w r = w @ encodeRune r"

subsection \<open>The escape table and RawWrite\<close>

definition htmlEscaleTable :: "char \<Rightarrow> string option" where
  \<comment> \<open>The 256-entry array: entries 34, 38, 60 and 62 hold a replacement, all others are
      \<open>nil\<close>.\<close>
  "htmlEscaleTable c =
     (if c = CHR 0x22 then Some ''&quot;''
      else if c = CHR ''&'' then Some ''&amp;''
      else if c = CHR ''<'' then Some ''&lt;''
      else if c = CHR ''>'' then Some ''&gt;''
      else None)"

function RawWrite_loop :: "string \<Rightarrow> string \<Rightarrow> int \<Rightarrow> int \<Rightarrow> string res" where
  \<comment> \<open>The loop of \<open>RawWrite\<close> and the flush after it: \<open>i\<close> is the loop index, \<open>n\<close> the
      number of pending bytes.\<close>
  "RawWrite_loop source w i n =
     (if i < int (length source) then
        bnd (index source i) (\<lambda>c.
          case htmlEscaleTable c of
            Some v \<Rightarrow>
              bnd (slice source (i - n) i) (\<lambda>s. RawWrite_loop source ((w @ s) @ v) (i + 1) 0)
          | None \<Rightarrow> RawWrite_loop source w (i + 1) (n + 1))
      else if n \<noteq> 0 then
        bnd (slice source (int (length source) - n) (int (length source))) (\<lambda>s. Inr (w @ s))
      else Inr w)"
  by pat_completeness auto
termination
  by (relation "measure (\<lambda>(source, w, i, n). nat (int (length source) - i))") auto

definition defaultWriter_RawWrite :: "string \<Rightarrow> string \<Rightarrow> string res" where
  \<comment> \<open>\<open>(d *defaultWriter) RawWrite\<close>: \<open>w\<close> is the sink before the call, the result the sink
      after it.\<close>
  "defaultWriter_RawWrite w source = RawWrite_loop source w 0 0"

subsection \<open>Reading a run of bytes\<close>

function readWhile_loop :: "string \<Rightarrow> int \<Rightarrow> int \<Rightarrow> (char \<Rightarrow> bool) \<Rightarrow> bool \<Rightarrow> (int \<times> bool) res" where
  \<comment> \<open>The loop of \<open>readWhile\<close>: \<open>j\<close> runs from \<open>index[0]\<close> up to \<open>index[1] = hi\<close>.\<close>
  "readWhile_loop source j hi pred ok =
     (if j < hi then
        bnd (index source j) (\<lambda>c1.
          if pred c1 then readWhile_loop source (j + 1) hi pred True
          else Inr (j, ok))
      else Inr (j, ok))"
  by pat_completeness auto
termination
  by (relation "measure (\<lambda>(source, j, hi, pred, ok). nat (hi - j))") auto

definition readWhile :: "string \<Rightarrow> int \<times> int \<Rightarrow> (char \<Rightarrow> bool) \<Rightarrow> (int \<times> bool) res" where
  "readWhile source idx pred = readWhile_loop source (fst idx) (snd idx) pred False"

subsection \<open>Numbers of the Go library\<close>

definition digitVal :: "char \<Rightarrow> int option" where
  \<comment> \<open>The value \<open>strconv.ParseUint\<close> gives a byte as a digit: \<open>0-9\<close>, then the letters
      of either case from 10 on.\<close>
  "digitVal c =
     (let k = (of_char c :: int)
      in if 48 \<le> k \<and> k \<le> 57 then Some (k - 48)
         else if 97 \<le> k \<and> k \<le> 122 then Some (k - 97 + 10)
         else if 65 \<le> k \<and> k \<le> 90 then Some (k - 65 + 10)
         else None)"

fun ParseUint_digits :: "int \<Rightarrow> int \<Rightarrow> int \<Rightarrow> string \<Rightarrow> int" where
  \<comment> \<open>The digit loop of \<open>strconv.ParseUint\<close>: a syntax error gives 0, a range error the
      largest value of the bit size.\<close>
  "ParseUint_digits base maxVal n [] = n"
| "ParseUint_digits base maxVal n (c # cs) =
     (case digitVal c of
        None \<Rightarrow> 0
      | Some d \<Rightarrow>
          if base \<le> d then 0
          else if (2 ^ 64 - 1) div base + 1 \<le> n then maxVal
          else if maxVal < n * base + d then maxVal
          else ParseUint_digits base maxVal (n * base + d) cs)"

definition ParseUint :: "string \<Rightarrow> int \<Rightarrow> nat \<Rightarrow> int" where
  \<comment> \<open>The value \<open>strconv.ParseUint(s, base, bitSize)\<close> returns beside its error, which the
      code drops, as the Go library documents it, for the strings this code passes: runs of
      decimal digits with base 0 and of hexadecimal digits with base 16. With base 0 the base
      is read from the string: a leading \<open>0\<close> is the octal prefix, otherwise the base is
      10.\<close>
  "ParseUint s base bitSize =
     (if s = [] then 0
      else if base = 0 then
        (if hd s = CHR ''0'' then ParseUint_digits 8 (2 ^ bitSize - 1) 0 (tl s)
         else ParseUint_digits 10 (2 ^ bitSize - 1) 0 s)
      else ParseUint_digits base (2 ^ bitSize - 1) 0 s)"

definition rune :: "int \<Rightarrow> int" where
  \<comment> \<open>The conversion \<open>rune(v)\<close> of a \<open>uint64\<close> to the 32-bit signed \<open>rune\<close>.\<close>
  "rune v = (let u = v mod 2 ^ 32 in if u < 2 ^ 31 then u else u - 2 ^ 32)"

subsection \<open>Write\<close>

definition escapeRune :: "string \<Rightarrow> int \<Rightarrow> string" where
  "escapeRune w r =
     (if r < 256 then
        (case htmlEscaleTable (char_of r) of
           Some v \<Rightarrow> w @ v
         | None \<Rightarrow> WriteRune w (ToValidRune r))
      else WriteRune w (ToValidRune r))"

text \<open>
  The three reference forms of \<open>Write\<close>. Each returns \<open>Some (w, i, n)\<close>, the sink and the
  variables \<open>i\<close> and \<open>n\<close> at its \<open>continue\<close>, or \<open>None\<close> when control falls through
  to \<open>i = next - 1\<close>.
\<close>

definition Write_hex :: "string \<Rightarrow> string \<Rightarrow> int \<Rightarrow> int \<Rightarrow> int \<Rightarrow> int \<Rightarrow> (string \<times> int \<times> int) option res" where
  "Write_hex source w n pos nnext limit =
     (let start = nnext + 1 in
      bnd (readWhile source (start, limit) IsHexDecimal) (\<lambda>(i, ok).
        if ok \<and> i < limit then
          bnd (index source i) (\<lambda>c.
            if c = CHR '';'' then
              bnd (slice source start i) (\<lambda>ds.
                let v = ParseUint ds 16 32 in
                bnd (slice source n pos) (\<lambda>s.
                  bnd (defaultWriter_RawWrite w s) (\<lambda>w'.
                    Inr (Some (escapeRune w' (rune v), i, i + 1)))))
            else Inr None)
        else Inr None))"

definition Write_decimal :: "string \<Rightarrow> string \<Rightarrow> int \<Rightarrow> int \<Rightarrow> int \<Rightarrow> int \<Rightarrow> (string \<times> int \<times> int) option res" where
  "Write_decimal source w n pos nnext limit =
     (let start = nnext in
      bnd (readWhile source (start, limit) IsNumeric) (\<lambda>(i, ok).
        if ok \<and> i < limit \<and> i - start < 8 then
          bnd (index source i) (\<lambda>c.
            if c = CHR '';'' then
              bnd (slice source start i) (\<lambda>ds.
                let v = ParseUint ds 0 32 in
                bnd (slice source n pos) (\<lambda>s.
                  bnd (defaultWriter_RawWrite w s) (\<lambda>w'.
                    Inr (Some (escapeRune w' (rune v), i, i + 1)))))
            else Inr None)
        else Inr None))"

definition Write_named :: "entities \<Rightarrow> string \<Rightarrow> string \<Rightarrow> int \<Rightarrow> int \<Rightarrow> int \<Rightarrow> int \<Rightarrow> (string \<times> int \<times> int) option res" where
  "Write_named ent source w n pos next limit =
     (let start = next in
      bnd (readWhile source (start, limit) IsAlphaNumeric) (\<lambda>(i, ok).
        if ok \<and> i < limit then
          bnd (index source i) (\<lambda>c.
            if c = CHR '';'' then
              bnd (slice source start i) (\<lambda>name.
                case ent name of
                  Some characters \<Rightarrow>
                    bnd (slice source n pos) (\<lambda>s.
                      bnd (defaultWriter_RawWrite w s) (\<lambda>w'.
                        bnd (defaultWriter_RawWrite w' characters) (\<lambda>w''.
                          Inr (Some (w'', i, i + 1)))))
                | None \<Rightarrow> Inr None)
            else Inr None)
        else Inr None))"

definition Write_reference :: "entities \<Rightarrow> string \<Rightarrow> string \<Rightarrow> int \<Rightarrow> int \<Rightarrow> (string \<times> int \<times> int) option res" where
  \<comment> \<open>The body of \<open>if c == '&'\<close> up to, not including, \<open>i = next - 1\<close>.\<close>
  "Write_reference ent source w n i =
     (let limit = int (length source); pos = i; next = i + 1 in
      bnd (if next < limit then bnd (index source next) (\<lambda>c. Inr (c = CHR ''#'')) else Inr False)
        (\<lambda>numeric.
          if numeric then
            (let nnext = next + 1 in
             bnd (index source nnext) (\<lambda>nc.
               if (nnext < limit \<and> nc = CHR ''x'') \<or> nc = CHR ''X'' then
                 Write_hex source w n pos nnext limit
               else if CHR ''0'' \<le> nc \<and> nc \<le> CHR ''9'' then
                 Write_decimal source w n pos nnext limit
               else Inr None))
          else Write_named ent source w n pos next limit))"

definition Write_body :: "entities \<Rightarrow> string \<Rightarrow> string \<Rightarrow> int \<Rightarrow> int \<Rightarrow> bool \<Rightarrow> (string \<times> int \<times> int \<times> bool) res" where
  \<comment> \<open>One run of the loop body of \<open>Write\<close>: the sink and the variables \<open>i\<close>, \<open>n\<close> and
      \<open>escaped\<close> when control reaches the loop's \<open>i++\<close>.\<close>
  "Write_body ent source w i n escaped =
     bnd (index source i) (\<lambda>c.
       if escaped \<and> IsPunct c then
         bnd (slice source n (i - 1)) (\<lambda>s.
           bnd (defaultWriter_RawWrite w s) (\<lambda>w'. Inr (w', i, i, False)))
       else
         bnd (if c = CHR ''&'' then Write_reference ent source w n i else Inr None) (\<lambda>r.
           case r of
             Some (w', i', n') \<Rightarrow> Inr (w', i', n', escaped)
           | None \<Rightarrow>
               (let i' = (if c = CHR ''&'' then (i + 1) - 1 else i)
                in if c = CHR 0x5C then Inr (w, i', n, True)
                   else Inr (w, i', n, False))))"

lemma readWhile_loop_ge:
  "readWhile_loop source j hi pred ok = Inr (j', ok') \<Longrightarrow> j \<le> j'"
proof (induction source j hi pred ok rule: readWhile_loop.induct)
  case (1 source j hi pred ok)
  show ?case
  proof (cases "j < hi")
    case False
    then show ?thesis using "1.prems" by (subst (asm) readWhile_loop.simps) simp
  next
    case True
    from "1.prems" obtain c1 where c1: "index source j = Inr c1"
      using True by (subst (asm) readWhile_loop.simps) (auto simp: bnd_def split: sum.splits)
    show ?thesis
    proof (cases "pred c1")
      case False
      then show ?thesis using "1.prems" True c1
        by (subst (asm) readWhile_loop.simps) (simp add: bnd_def)
    next
      case p: True
      have "readWhile_loop source (j + 1) hi pred True = Inr (j', ok')"
        using "1.prems" True c1 p by (subst (asm) readWhile_loop.simps) (simp add: bnd_def)
      then have "j + 1 \<le> j'" using "1.IH" True c1 p by blast
      then show ?thesis by simp
    qed
  qed
qed

lemma readWhile_ge: "readWhile source (lo, hi) pred = Inr (j, ok) \<Longrightarrow> lo \<le> j"
  using readWhile_loop_ge by (simp add: readWhile_def)

lemma Write_hex_advances:
  "Write_hex source w n pos nnext limit = Inr (Some (w', i', n')) \<Longrightarrow> nnext < i'"
  by (auto simp: Write_hex_def bnd_def Let_def split: sum.splits if_splits prod.splits
      dest!: readWhile_ge)

lemma Write_decimal_advances:
  "Write_decimal source w n pos nnext limit = Inr (Some (w', i', n')) \<Longrightarrow> nnext \<le> i'"
  by (auto simp: Write_decimal_def bnd_def Let_def split: sum.splits if_splits prod.splits
      dest!: readWhile_ge)

lemma Write_named_advances:
  "Write_named ent source w n pos next limit = Inr (Some (w', i', n')) \<Longrightarrow> next \<le> i'"
  by (auto simp: Write_named_def bnd_def Let_def split: sum.splits if_splits prod.splits option.splits
      dest!: readWhile_ge)

lemma Write_reference_advances:
  "Write_reference ent source w n i = Inr (Some (w', i', n')) \<Longrightarrow> i < i'"
  by (auto simp: Write_reference_def bnd_def Let_def split: sum.splits if_splits
      dest!: Write_hex_advances Write_decimal_advances Write_named_advances)

lemma Write_body_advances:
  "Write_body ent source w i n escaped = Inr (w', i', n', escaped') \<Longrightarrow> i \<le> i'"
  by (auto simp: Write_body_def bnd_def Let_def split: sum.splits if_splits option.splits
      dest!: Write_reference_advances)

function Write_loop :: "entities \<Rightarrow> string \<Rightarrow> string \<Rightarrow> int \<Rightarrow> int \<Rightarrow> bool \<Rightarrow> string res" where
  \<comment> \<open>The loop of \<open>Write\<close> and the final flush.\<close>
  "Write_loop ent source w i n escaped =
     (if i < int (length source) then
        (case Write_body ent source w i n escaped of
           Inl e \<Rightarrow> Inl e
         | Inr (w', i', n', escaped') \<Rightarrow> Write_loop ent source w' (i' + 1) n' escaped')
      else bnd (slice source n (int (length source))) (\<lambda>s. defaultWriter_RawWrite w s))"
  by pat_completeness auto
termination
proof (relation "measure (\<lambda>(ent, source, w, i, n, escaped). nat (int (length source) - i))")
  show "wf (measure (\<lambda>(ent, source, w, i, n, escaped). nat (int (length source) - i)))"
    by simp
next
  fix ent :: entities and source w :: string and i n :: int and escaped :: bool
  fix x2 :: "string \<times> int \<times> int \<times> bool" and w' :: string and y :: "int \<times> int \<times> bool"
  fix i' :: int and ya :: "int \<times> bool" and n' :: int and escaped' :: bool
  assume lt: "i < int (length source)"
    and body: "Write_body ent source w i n escaped = Inr x2"
    and x2: "(w', y) = x2" "(i', ya) = y" "(n', escaped') = ya"
  from body x2 have "Write_body ent source w i n escaped = Inr (w', i', n', escaped')" by simp
  then have "i \<le> i'" by (rule Write_body_advances)
  then show "((ent, source, w', i' + 1, n', escaped'), ent, source, w, i, n, escaped)
      \<in> measure (\<lambda>(ent, source, w, i, n, escaped). nat (int (length source) - i))"
    using lt by simp
qed

definition defaultWriter_Write :: "entities \<Rightarrow> string \<Rightarrow> string \<Rightarrow> string res" where
  \<comment> \<open>\<open>(d *defaultWriter) Write\<close>.\<close>
  "defaultWriter_Write ent w source = Write_loop ent source w 0 0 False"

section \<open>The tree renderer\<close>

subsection \<open>The document tree\<close>

record Segment =
  Start :: int
  Stop :: int

definition Value :: "Segment \<Rightarrow> string \<Rightarrow> string res" where
  \<comment> \<open>Modelled from the spec: package \<open>text\<close> is not among the sources; a Segment is the
      half-open byte range \<open>[Start, Stop)\<close> of the source buffer and \<open>Value\<close> is its view
      \<open>buffer[Start:Stop]\<close>.\<close>
  "Value seg buffer = slice buffer (Start seg) (Stop seg)"

datatype AutoLinkType = AutoLinkEmail | AutoLinkURL

text \<open>
  The nodes are the struct types of package \<open>ast\<close>, which is not among the sources. \<open>Kind\<close>
  is the dynamic type of a node together with the attributes \<open>Render\<close> reads from it:
  \<open>Level\<close> and \<open>ID\<close> of a Heading; \<open>Info\<close> of a FencedCodeBlock; \<open>HasClosure()\<close> and
  \<open>ClosureLine\<close> of an HTMLBlock; \<open>IsOrdered()\<close> and \<open>Start\<close> of a List; \<open>AutoLinkType\<close> and
  \<open>Value\<close> of an AutoLink; \<open>Level\<close> of an Emphasis; \<open>Destination\<close> and \<open>Title\<close> of an Image
  and of a Link; \<open>Segment\<close>, \<open>IsRaw()\<close>, \<open>HardLineBreak()\<close> and \<open>SoftLineBreak()\<close> of a Text.
  A byte slice or pointer that may be \<open>nil\<close> is an option. \<open>Other\<close> stands for every
  implementation of \<open>ast.Node\<close> that the type switch of \<open>Render\<close> does not list. A node
  carries its lines (\<open>n.Lines()\<close>) and its children in order.
\<close>

datatype Kind =
    Document
  | Heading int "string option"
  | Blockquote
  | CodeBlock
  | FencedCodeBlock "Segment option"
  | HTMLBlock bool Segment
  | List bool int
  | ListItem
  | Paragraph
  | TextBlock
  | ThemanticBreak
  | AutoLink AutoLinkType "Segment option"
  | CodeSpan
  | Emphasis int
  | Image string "string option"
  | Link string "string option"
  | RawHTML
  | Text Segment bool bool bool
  | Other

datatype Node = Node (kind: Kind) (Lines: "Segment list") (Children: "Node list")

definition FirstChild :: "Node \<Rightarrow> Node option" where
  "FirstChild n = (case Children n of [] \<Rightarrow> None | c # cs \<Rightarrow> Some c)"

datatype WalkStatus = WalkStop | WalkSkipChildren | WalkContinue

datatype error = NotSupported

record Writer =
  Write :: "string \<Rightarrow> string \<Rightarrow> string res"
  RawWrite :: "string \<Rightarrow> string \<Rightarrow> string res"

record Config =
  Writer :: Writer
  SoftLineBreak :: bool
  XHTML :: bool

record externals =
  EscapeHTML :: "string \<Rightarrow> string"
  URLEscape :: "string \<Rightarrow> bool \<Rightarrow> string"
  ToLower :: "string \<Rightarrow> string"
  NodeText :: "Node \<Rightarrow> string \<Rightarrow> string res"


subsection \<open>Library functions the renderer calls\<close>

abbreviation (input) DQ :: char where
  "DQ \<equiv> CHR 0x22"

abbreviation (input) NL :: char where
  "NL \<equiv> CHR 0x0A"

definition WriteBytes :: "string \<Rightarrow> string \<Rightarrow> string" where
  \<comment> \<open>\<open>w.Write(p)\<close> of the sink.\<close>
  "WriteBytes w p = w @ p"

definition HasPrefix :: "string \<Rightarrow> string \<Rightarrow> bool" where
  \<comment> \<open>\<open>bytes.HasPrefix\<close>.\<close>
  "HasPrefix s p = (take (length p) s = p)"

definition HasSuffix :: "string \<Rightarrow> string \<Rightarrow> bool" where
  \<comment> \<open>\<open>bytes.HasSuffix\<close>.\<close>
  "HasSuffix s p = (length p \<le> length s \<and> drop (length s - length p) s = p)"

fun decimal :: "nat \<Rightarrow> string" where
  "decimal k = (if k < 10 then [char_of (48 + k)] else decimal (k div 10) @ [char_of (48 + k mod 10)])"

declare decimal.simps [simp del]

definition formatInt :: "int \<Rightarrow> string" where
  \<comment> \<open>The verb \<open>%d\<close> of \<open>fmt.Fprintf\<close>.\<close>
  "formatInt k = (if k < 0 then CHR ''-'' # decimal (nat (- k)) else decimal (nat k))"

subsection \<open>The emission rules\<close>

type_synonym Renderer = Config

fun writeLines_loop :: "Renderer \<Rightarrow> string \<Rightarrow> string \<Rightarrow> Segment list \<Rightarrow> string res" where
  "writeLines_loop r w source [] = Inr w"
| "writeLines_loop r w source (line # rest) =
     bnd (Value line source) (\<lambda>v.
       bnd (RawWrite (Writer r) w v) (\<lambda>w'. writeLines_loop r w' source rest))"

definition writeLines :: "Renderer \<Rightarrow> string \<Rightarrow> string \<Rightarrow> Node \<Rightarrow> string res" where
  "writeLines r w source n = writeLines_loop r w source (Lines n)"

definition renderDocument :: "Renderer \<Rightarrow> string \<Rightarrow> string \<Rightarrow> Node \<Rightarrow> bool \<Rightarrow> (string \<times> WalkStatus) res" where
  "renderDocument r w source n entering = Inr (w, WalkContinue)"

definition renderHeading :: "Renderer \<Rightarrow> string \<Rightarrow> string \<Rightarrow> int \<Rightarrow> string option \<Rightarrow> bool \<Rightarrow> (string \<times> WalkStatus) res" where
  \<comment> \<open>\<open>level\<close> is \<open>n.Level\<close> and \<open>ident\<close> is \<open>n.ID\<close>, \<open>None\<close> for \<open>nil\<close>.\<close>
  "renderHeading r w source level ident entering =
     (if entering then
        (let w1 = WriteString w ''<h'' in
         bnd (index ''0123456'' level) (\<lambda>c.
           let w2 = WriteByte w1 c;
               w3 = (case ident of
                       Some i \<Rightarrow> WriteByte (WriteBytes (WriteString w2 ('' id='' @ [DQ])) i) DQ
                     | None \<Rightarrow> w2)
           in Inr (WriteByte w3 CHR ''>'', WalkContinue)))
      else
        (let w1 = WriteString w ''</h'' in
         bnd (index ''0123456'' level) (\<lambda>c.
           Inr (WriteString (WriteByte w1 c) [CHR ''>'', NL], WalkContinue))))"

definition renderBlockquote :: "Renderer \<Rightarrow> string \<Rightarrow> string \<Rightarrow> Node \<Rightarrow> bool \<Rightarrow> (string \<times> WalkStatus) res" where
  "renderBlockquote r w source n entering =
     (if entering then Inr (WriteString w (''<blockquote>'' @ [NL]), WalkContinue)
      else Inr (WriteString w (''</blockquote>'' @ [NL]), WalkContinue))"

definition renderCodeBlock :: "Renderer \<Rightarrow> string \<Rightarrow> string \<Rightarrow> Node \<Rightarrow> bool \<Rightarrow> (string \<times> WalkStatus) res" where
  "renderCodeBlock r w source n entering =
     (if entering then
        bnd (writeLines r (WriteString w ''<pre><code>'') source n) (\<lambda>w'. Inr (w', WalkContinue))
      else Inr (WriteString w (''</code></pre>'' @ [NL]), WalkContinue))"

definition renderFencedCodeBlock :: "Renderer \<Rightarrow> string \<Rightarrow> string \<Rightarrow> Node \<Rightarrow> Segment option \<Rightarrow> bool \<Rightarrow> (string \<times> WalkStatus) res" where
  \<comment> \<open>\<open>info\<close> is \<open>n.Info\<close>: \<open>None\<close> for \<open>nil\<close>, else the Segment of the Text it points to.
      The loop over \<open>i\<close> stops at the first space, so \<open>info[:i]\<close> is the longest prefix
      without a space.\<close>
  "renderFencedCodeBlock r w source n info entering =
     (if entering then
        (let w1 = WriteString w ''<pre><code'' in
         bnd (case info of
                Some segment \<Rightarrow>
                  bnd (Value segment source) (\<lambda>info.
                    let language = takeWhile (\<lambda>c. c \<noteq> CHR '' '') info;
                        w2 = WriteString w1 ('' class='' @ [DQ] @ ''language-'')
                    in bnd (Write (Writer r) w2 language) (\<lambda>w3. Inr (WriteString w3 [DQ])))
              | None \<Rightarrow> Inr w1) (\<lambda>w4.
           bnd (writeLines r (WriteByte w4 CHR ''>'') source n) (\<lambda>w5. Inr (w5, WalkContinue))))
      else Inr (WriteString w (''</code></pre>'' @ [NL]), WalkContinue))"

fun writeValues :: "string \<Rightarrow> string \<Rightarrow> Segment list \<Rightarrow> string res" where
  \<comment> \<open>The loop of \<open>renderHTMLBlock\<close>: every line copied as it is.\<close>
  "writeValues w source [] = Inr w"
| "writeValues w source (line # rest) =
     bnd (Value line source) (\<lambda>v. writeValues (WriteBytes w v) source rest)"

definition renderHTMLBlock :: "Renderer \<Rightarrow> string \<Rightarrow> string \<Rightarrow> Node \<Rightarrow> bool \<Rightarrow> Segment \<Rightarrow> bool \<Rightarrow> (string \<times> WalkStatus) res" where
  \<comment> \<open>\<open>hasClosure\<close> is \<open>n.HasClosure()\<close> and \<open>closure\<close> is \<open>n.ClosureLine\<close>.\<close>
  "renderHTMLBlock r w source n hasClosure closure entering =
     (if entering then
        bnd (writeValues w source (Lines n)) (\<lambda>w'. Inr (w', WalkContinue))
      else if hasClosure then
        bnd (Value closure source) (\<lambda>v. Inr (WriteBytes w v, WalkContinue))
      else Inr (w, WalkContinue))"

definition renderList :: "Renderer \<Rightarrow> string \<Rightarrow> string \<Rightarrow> bool \<Rightarrow> int \<Rightarrow> bool \<Rightarrow> (string \<times> WalkStatus) res" where
  \<comment> \<open>\<open>isOrdered\<close> is \<open>n.IsOrdered()\<close> and \<open>start\<close> is \<open>n.Start\<close>.\<close>
  "renderList r w source isOrdered start entering =
     (let tag = (if isOrdered then ''ol'' else ''ul'') in
      if entering then
        (let w1 = WriteString (WriteByte w CHR ''<'') tag in
         if isOrdered \<and> start \<noteq> 1 then
           Inr (w1 @ '' start='' @ [DQ] @ formatInt start @ [DQ, CHR ''>'', NL], WalkContinue)
         else Inr (WriteString w1 [CHR ''>'', NL], WalkContinue))
      else
        Inr (WriteString (WriteString (WriteString w ''</'') tag) [CHR ''>'', NL], WalkContinue))"

definition renderListItem :: "Renderer \<Rightarrow> string \<Rightarrow> string \<Rightarrow> Node \<Rightarrow> bool \<Rightarrow> (string \<times> WalkStatus) res" where
  "renderListItem r w source n entering =
     (if entering then
        (let w1 = WriteString w ''<li>'' in
         case FirstChild n of
           Some fc \<Rightarrow>
             (case kind fc of
                TextBlock \<Rightarrow> Inr (w1, WalkContinue)
              | _ \<Rightarrow> Inr (WriteByte w1 NL, WalkContinue))
         | None \<Rightarrow> Inr (w1, WalkContinue))
      else Inr (WriteString w (''</li>'' @ [NL]), WalkContinue))"

definition renderParagraph :: "Renderer \<Rightarrow> string \<Rightarrow> string \<Rightarrow> Node \<Rightarrow> bool \<Rightarrow> (string \<times> WalkStatus) res" where
  "renderParagraph r w source n entering =
     (if entering then Inr (WriteString w ''<p>'', WalkContinue)
      else Inr (WriteString w (''</p>'' @ [NL]), WalkContinue))"

definition renderTextBlock :: "Renderer \<Rightarrow> string \<Rightarrow> string \<Rightarrow> Node \<Rightarrow> Node option \<Rightarrow> bool \<Rightarrow> (string \<times> WalkStatus) res" where
  \<comment> \<open>\<open>nextSibling\<close> is \<open>n.NextSibling()\<close>, \<open>None\<close> for \<open>nil\<close>.\<close>
  "renderTextBlock r w source n nextSibling entering =
     (if \<not> entering then
        (if nextSibling \<noteq> None \<and> FirstChild n \<noteq> None then Inr (WriteByte w NL, WalkContinue)
         else Inr (w, WalkContinue))
      else Inr (w, WalkContinue))"

definition renderThemanticBreak :: "Renderer \<Rightarrow> string \<Rightarrow> string \<Rightarrow> Node \<Rightarrow> bool \<Rightarrow> (string \<times> WalkStatus) res" where
  "renderThemanticBreak r w source n entering =
     (if \<not> entering then Inr (w, WalkContinue)
      else if XHTML r then Inr (WriteString w (''<hr />'' @ [NL]), WalkContinue)
      else Inr (WriteString w (''<hr>'' @ [NL]), WalkContinue))"

definition renderAutoLink :: "Renderer \<Rightarrow> externals \<Rightarrow> string \<Rightarrow> string \<Rightarrow> AutoLinkType \<Rightarrow> Segment option \<Rightarrow> bool \<Rightarrow> (string \<times> WalkStatus) res" where
  \<comment> \<open>\<open>t\<close> is \<open>n.AutoLinkType\<close>; \<open>v\<close> is \<open>n.Value\<close>: \<open>None\<close> for \<open>nil\<close>, else the
      Segment of the Text it points to.\<close>
  "renderAutoLink r u w source t v entering =
     (if \<not> entering then Inr (w, WalkContinue)
      else
        (let w1 = WriteString w (''<a href='' @ [DQ]) in
         case v of
           None \<Rightarrow> Inl NilDereference
         | Some segment \<Rightarrow>
             bnd (Value segment source) (\<lambda>value.
               let w2 = (if t = AutoLinkEmail \<and> \<not> HasPrefix (ToLower u value) ''mailto:''
                         then WriteString w1 ''mailto:'' else w1);
                   w3 = WriteBytes w2 (EscapeHTML u (URLEscape u value False));
                   w4 = WriteString w3 [DQ, CHR ''>''];
                   w5 = WriteBytes w4 (EscapeHTML u value);
                   w6 = WriteString w5 ''</a>''
               in Inr (w6, WalkContinue))))"

fun renderCodeSpan_loop :: "Renderer \<Rightarrow> string \<Rightarrow> string \<Rightarrow> Node list \<Rightarrow> string res" where
  \<comment> \<open>The loop over the children \<open>c\<close> of a CodeSpan; \<open>c\<close> is the last child when no sibling
      follows it.\<close>
  "renderCodeSpan_loop r w source [] = Inr w"
| "renderCodeSpan_loop r w source (c # cs) =
     (case kind c of
        Text segment raw hard soft \<Rightarrow>
          bnd (Value segment source) (\<lambda>value.
            if HasSuffix value [NL] then
              bnd (slice value 0 (int (length value) - 1)) (\<lambda>v.
                bnd (RawWrite (Writer r) w v) (\<lambda>w1.
                  bnd (if cs \<noteq> [] then RawWrite (Writer r) w1 '' '' else Inr w1) (\<lambda>w2.
                    renderCodeSpan_loop r w2 source cs)))
            else
              bnd (RawWrite (Writer r) w value) (\<lambda>w1. renderCodeSpan_loop r w1 source cs))
      | _ \<Rightarrow> Inl InterfaceConversion)"

definition renderCodeSpan :: "Renderer \<Rightarrow> string \<Rightarrow> string \<Rightarrow> Node \<Rightarrow> bool \<Rightarrow> (string \<times> WalkStatus) res" where
  "renderCodeSpan r w source n entering =
     (if entering then
        bnd (renderCodeSpan_loop r (WriteString w ''<code>'') source (Children n)) (\<lambda>w'.
          Inr (w', WalkSkipChildren))
      else Inr (WriteString w ''</code>'', WalkContinue))"

definition renderEmphasis :: "Renderer \<Rightarrow> string \<Rightarrow> string \<Rightarrow> int \<Rightarrow> bool \<Rightarrow> (string \<times> WalkStatus) res" where
  \<comment> \<open>\<open>level\<close> is \<open>n.Level\<close>.\<close>
  "renderEmphasis r w source level entering =
     (let tag = (if level = 2 then ''strong'' else ''em'') in
      if entering then
        Inr (WriteByte (WriteString (WriteByte w CHR ''<'') tag) CHR ''>'', WalkContinue)
      else
        Inr (WriteByte (WriteString (WriteString w ''</'') tag) CHR ''>'', WalkContinue))"

definition renderLink :: "Renderer \<Rightarrow> externals \<Rightarrow> string \<Rightarrow> string \<Rightarrow> string \<Rightarrow> string option \<Rightarrow> bool \<Rightarrow> (string \<times> WalkStatus) res" where
  \<comment> \<open>\<open>destination\<close> is \<open>n.Destination\<close> and \<open>title\<close> is \<open>n.Title\<close>, \<open>None\<close> for \<open>nil\<close>.\<close>
  "renderLink r u w source destination title entering =
     (if entering then
        (let w1 = WriteString w (''<a href='' @ [DQ]);
             w2 = WriteBytes w1 (EscapeHTML u (URLEscape u destination True));
             w3 = WriteByte w2 DQ
         in bnd (case title of
                   Some t \<Rightarrow>
                     bnd (Write (Writer r) (WriteString w3 ('' title='' @ [DQ])) t) (\<lambda>w4.
                       Inr (WriteByte w4 DQ))
                 | None \<Rightarrow> Inr w3) (\<lambda>w5.
              Inr (WriteByte w5 CHR ''>'', WalkContinue)))
      else Inr (WriteString w ''</a>'', WalkContinue))"

definition renderImage :: "Renderer \<Rightarrow> externals \<Rightarrow> string \<Rightarrow> string \<Rightarrow> Node \<Rightarrow> string \<Rightarrow> string option \<Rightarrow> bool \<Rightarrow> (string \<times> WalkStatus) res" where
  \<comment> \<open>\<open>destination\<close> is \<open>n.Destination\<close> and \<open>title\<close> is \<open>n.Title\<close>, \<open>None\<close> for \<open>nil\<close>.\<close>
  "renderImage r u w source n destination title entering =
     (if \<not> entering then Inr (w, WalkContinue)
      else
        (let w1 = WriteString w (''<img src='' @ [DQ]);
             w2 = WriteBytes w1 (EscapeHTML u (URLEscape u destination True));
             w3 = WriteString w2 ([DQ] @ '' alt='' @ [DQ])
         in bnd (NodeText u n source) (\<lambda>text.
              let w4 = WriteByte (WriteBytes w3 text) DQ
              in bnd (case title of
                        Some t \<Rightarrow>
                          bnd (Write (Writer r) (WriteString w4 ('' title='' @ [DQ])) t) (\<lambda>w5.
                            Inr (WriteByte w5 DQ))
                      | None \<Rightarrow> Inr w4) (\<lambda>w6.
                   if XHTML r then Inr (WriteString w6 '' />'', WalkSkipChildren)
                   else Inr (WriteString w6 ''>'', WalkSkipChildren)))))"

definition renderRawHTML :: "Renderer \<Rightarrow> string \<Rightarrow> string \<Rightarrow> Node \<Rightarrow> bool \<Rightarrow> (string \<times> WalkStatus) res" where
  "renderRawHTML r w source n entering = Inr (w, WalkContinue)"

definition renderText :: "Renderer \<Rightarrow> string \<Rightarrow> string \<Rightarrow> Segment \<Rightarrow> bool \<Rightarrow> bool \<Rightarrow> bool \<Rightarrow> bool \<Rightarrow> (string \<times> WalkStatus) res" where
  \<comment> \<open>\<open>segment\<close> is \<open>n.Segment\<close>; \<open>isRaw\<close>, \<open>hard\<close> and \<open>soft\<close> are \<open>n.IsRaw()\<close>,
      \<open>n.HardLineBreak()\<close> and \<open>n.SoftLineBreak()\<close>.\<close>
  "renderText r w source segment isRaw hard soft entering =
     (if \<not> entering then Inr (w, WalkContinue)
      else if isRaw then
        bnd (Value segment source) (\<lambda>v. Inr (WriteBytes w v, WalkContinue))
      else
        bnd (Value segment source) (\<lambda>v.
          bnd (Write (Writer r) w v) (\<lambda>w1.
            if hard \<or> (soft \<and> SoftLineBreak r) then
              (if XHTML r then Inr (WriteString w1 (''<br />'' @ [NL]), WalkContinue)
               else Inr (WriteString w1 (''<br>'' @ [NL]), WalkContinue))
            else if soft then Inr (WriteByte w1 NL, WalkContinue)
            else Inr (w1, WalkContinue))))"

subsection \<open>The dispatcher\<close>

definition returns :: "(string \<times> WalkStatus) res \<Rightarrow> error option \<Rightarrow> (string \<times> WalkStatus \<times> error option) res" where
  \<comment> \<open>\<open>return status, err\<close>, where computing the status has written to the sink.\<close>
  "returns m err = bnd m (\<lambda>(w, status). Inr (w, status, err))"

definition Render :: "Renderer \<Rightarrow> externals \<Rightarrow> string \<Rightarrow> string \<Rightarrow> Node \<Rightarrow> Node option \<Rightarrow> bool \<Rightarrow> (string \<times> WalkStatus \<times> error option) res" where
  \<comment> \<open>The type switch of \<open>Render\<close>. \<open>nextSibling\<close> is what \<open>n.NextSibling()\<close> returns: the
      tree links a node to its siblings, the datatype does not. The result is the sink, the
      status and the error, \<open>None\<close> for \<open>nil\<close>.\<close>
  "Render r u writer source n nextSibling entering =
     (case kind n of
        Document \<Rightarrow> returns (renderDocument r writer source n entering) None
      | Heading level ident \<Rightarrow> returns (renderHeading r writer source level ident entering) None
      | Blockquote \<Rightarrow> returns (renderBlockquote r writer source n entering) None
      | CodeBlock \<Rightarrow> returns (renderCodeBlock r writer source n entering) None
      | FencedCodeBlock info \<Rightarrow>
          returns (renderFencedCodeBlock r writer source n info entering) None
      | HTMLBlock hasClosure closure \<Rightarrow>
          returns (renderHTMLBlock r writer source n hasClosure closure entering) None
      | List isOrdered start \<Rightarrow> returns (renderList r writer source isOrdered start entering) None
      | ListItem \<Rightarrow> returns (renderListItem r writer source n entering) None
      | Paragraph \<Rightarrow> returns (renderParagraph r writer source n entering) None
      | TextBlock \<Rightarrow> returns (renderTextBlock r writer source n nextSibling entering) None
      | ThemanticBreak \<Rightarrow> returns (renderThemanticBreak r writer source n entering) None
      | AutoLink t v \<Rightarrow> returns (renderAutoLink r u writer source t v entering) None
      | CodeSpan \<Rightarrow> returns (renderCodeSpan r writer source n entering) None
      | Emphasis level \<Rightarrow> returns (renderEmphasis r writer source level entering) None
      | Image destination title \<Rightarrow>
          returns (renderImage r u writer source n destination title entering) None
      | Link destination title \<Rightarrow>
          returns (renderLink r u writer source destination title entering) None
      | RawHTML \<Rightarrow> returns (renderRawHTML r writer source n entering) None
      | Text segment isRaw hard soft \<Rightarrow>
          returns (renderText r writer source segment isRaw hard soft entering) None
      | Other \<Rightarrow> Inr (writer, WalkContinue, Some NotSupported))"

definition DefaultWriter :: "entities \<Rightarrow> Writer" where
  \<comment> \<open>\<open>DefaultWriter = &defaultWriter{}\<close>, over the entity table.\<close>
  "DefaultWriter ent = \<lparr>Write = defaultWriter_Write ent, RawWrite = defaultWriter_RawWrite\<rparr>"

definition NewConfig :: "entities \<Rightarrow> Config" where
  "NewConfig ent = \<lparr>Writer = DefaultWriter ent, SoftLineBreak = False, XHTML = False\<rparr>"

section \<open>Properties of the text engine\<close>

subsection \<open>Evaluation on concrete inputs\<close>

lemma bnd_Inl: "bnd (Inl e) f = Inl e"
  by (simp add: bnd_def)

lemma bnd_Inr: "bnd (Inr x) f = f x"
  by (simp add: bnd_def)

lemma bnd_weak_cong: "m = m' \<Longrightarrow> bnd m f = bnd m' f"
  by simp

lemma char_of_8: "char_of (8::int) = CHR 0x08"
  by (simp add: char_of_def bit_numeral_simps)

lemmas Write_eval =
  bnd_Inl bnd_Inr defaultWriter_Write_def Write_loop.simps Write_body_def Write_reference_def
  Write_hex_def Write_decimal_def Write_named_def readWhile_def readWhile_loop.simps
  defaultWriter_RawWrite_def RawWrite_loop.simps index_def slice_def htmlEscaleTable_def escapeRune_def
  WriteRune_def encodeRune_def ToValidRune_def rune_def ParseUint_def digitVal_def
  IsPunct_def IsNumeric_def IsHexDecimal_def IsAlphaNumeric_def char_of_8

subsection \<open>RawWrite\<close>

definition escapeByte :: "char \<Rightarrow> string" where
  \<comment> \<open>What the spec's Escape Table says of one byte: the four metacharacters have a
      replacement, every other byte stands for itself.\<close>
  "escapeByte c =
     (if c = CHR 0x22 then ''&quot;''
      else if c = CHR ''&'' then ''&amp;''
      else if c = CHR ''<'' then ''&lt;''
      else if c = CHR ''>'' then ''&gt;''
      else [c])"

lemma escapeByte_table:
  "escapeByte c = (case htmlEscaleTable c of Some v \<Rightarrow> v | None \<Rightarrow> [c])"
  by (simp add: escapeByte_def htmlEscaleTable_def)

lemma escape_pending:
  "\<forall>c \<in> set p. htmlEscaleTable c = None \<Longrightarrow> concat (map escapeByte p) = p"
  by (induction p) (simp_all add: escapeByte_table)

text \<open>
  The invariant of the loop of \<open>RawWrite\<close>: with \<open>n\<close> pending bytes before position
  \<open>i\<close>, none of them a metacharacter, the loop appends the escaped form of everything from
  the start of the pending run on.
\<close>

lemma RawWrite_loop_inv:
  "n \<le> i \<Longrightarrow> i \<le> length source \<Longrightarrow>
   \<forall>c \<in> set (take n (drop (i - n) source)). htmlEscaleTable c = None \<Longrightarrow>
   RawWrite_loop source w (int i) (int n) =
     Inr (w @ concat (map escapeByte (drop (i - n) source)))"
proof (induction "length source - i" arbitrary: i n w)
  case 0
  then have i: "i = length source" by simp
  have p: "take n (drop (i - n) source) = drop (i - n) source"
    using 0 i by simp
  have e: "concat (map escapeByte (drop (i - n) source)) = drop (i - n) source"
    using escape_pending[of "drop (i - n) source"] 0(4) p by simp
  show ?case
  proof (cases "n = 0")
    case True
    then show ?thesis using i by (subst RawWrite_loop.simps) simp
  next
    case False
    have "slice source (int (length source) - int n) (int (length source)) =
            Inr (drop (i - n) source)"
      using 0 i by (simp add: slice_def nat_diff_distrib')
    then show ?thesis using False i e
      by (subst RawWrite_loop.simps) (simp add: bnd_def)
  qed
next
  case (Suc k)
  then have lt: "i < length source" by simp
  let ?c = "source ! i"
  let ?p = "take n (drop (i - n) source)"
  have ix: "index source (int i) = Inr ?c" using lt by (simp add: index_def)
  have split: "drop (i - n) source = ?p @ ?c # drop (Suc i) source"
  proof -
    have "drop (i - n) source = ?p @ drop n (drop (i - n) source)"
      by (rule append_take_drop_id[symmetric])
    also have "drop n (drop (i - n) source) = drop i source" using Suc.prems(1) by simp
    also have "drop i source = ?c # drop (Suc i) source" using lt by (simp add: Cons_nth_drop_Suc)
    finally show ?thesis .
  qed
  have pe: "concat (map escapeByte ?p) = ?p" using escape_pending Suc.prems(3) by blast
  show ?case
  proof (cases "htmlEscaleTable ?c")
    case None
    have take': "take (Suc n) (drop (Suc i - Suc n) source) = ?p @ [?c]"
    proof -
      have lp: "length ?p = n" using Suc.prems lt by simp
      have "take (Suc n) (?p @ ?c # drop (Suc i) source) = ?p @ [?c]"
        using lp by (simp del: length_take)
      then show ?thesis using split by simp
    qed
    have "RawWrite_loop source w (int (Suc i)) (int (Suc n)) =
            Inr (w @ concat (map escapeByte (drop (Suc i - Suc n) source)))"
      using Suc.hyps(2) Suc.prems lt None take' by (intro Suc.hyps(1)) auto
    then show ?thesis using lt ix None
      by (subst RawWrite_loop.simps) (simp add: bnd_def add.commute)
  next
    case (Some v)
    have sl: "slice source (int i - int n) (int i) = Inr ?p"
      using Suc.prems lt by (simp add: slice_def nat_diff_distrib' min_def)
    have "RawWrite_loop source ((w @ ?p) @ v) (int (Suc i)) (int 0) =
            Inr (((w @ ?p) @ v) @ concat (map escapeByte (drop (Suc i - 0) source)))"
      using Suc.hyps(2) lt by (intro Suc.hyps(1)) auto
    moreover have "concat (map escapeByte (drop (i - n) source)) =
        ?p @ v @ concat (map escapeByte (drop (Suc i) source))"
      by (subst split) (simp add: pe escapeByte_table Some del: append_take_drop_id)
    ultimately show ?thesis using lt ix Some sl
      by (subst RawWrite_loop.simps) (simp add: bnd_def add.commute)
  qed
qed

lemma RawWrite_eq: "defaultWriter_RawWrite w s = Inr (w @ concat (map escapeByte s))"
  using RawWrite_loop_inv[of 0 0 s w] by (simp add: defaultWriter_RawWrite_def)

text \<open>
  Claim C2. For every byte sequence \<open>s\<close>, \<open>RawWrite\<close> never panics and appends to the
  sink the bytes of \<open>s\<close> in order, each of \<open>"\<close>, \<open>&\<close>, \<open><\<close>, \<open>>\<close> replaced by its
  sequence of the Escape Table and every other byte unchanged; so the appended text is at
  least as long as \<open>s\<close> and holds no \<open>"\<close>, \<open><\<close> or \<open>>\<close> at all, and an \<open>&\<close> only as the
  first byte of a replacement.
\<close>

theorem RawWrite_escapes:
  "defaultWriter_RawWrite w s = Inr (w @ concat (map escapeByte s))
   \<and> length s \<le> length (concat (map escapeByte s))
   \<and> CHR 0x22 \<notin> set (concat (map escapeByte s))
   \<and> CHR ''<'' \<notin> set (concat (map escapeByte s))
   \<and> CHR ''>'' \<notin> set (concat (map escapeByte s))"
proof -
  have len: "length s \<le> length (concat (map escapeByte s))"
    by (induction s) (simp_all add: escapeByte_def)
  have no: "CHR 0x22 \<notin> set (escapeByte c) \<and> CHR ''<'' \<notin> set (escapeByte c)
      \<and> CHR ''>'' \<notin> set (escapeByte c)" for c
    by (simp add: escapeByte_def)
  show ?thesis using RawWrite_eq len no by auto
qed

subsection \<open>Write on text without special bytes\<close>

definition plain :: "char \<Rightarrow> bool" where
  \<comment> \<open>A byte that is none of \<open>&\<close>, backslash, \<open>"\<close>, \<open><\<close>, \<open>>\<close>.\<close>
  "plain c =
     (c \<noteq> CHR ''&'' \<and> c \<noteq> CHR 0x5C \<and> c \<noteq> CHR 0x22 \<and> c \<noteq> CHR ''<'' \<and> c \<noteq> CHR ''>'')"

lemma escape_plain: "list_all plain s \<Longrightarrow> concat (map escapeByte s) = s"
  by (induction s) (simp_all add: escapeByte_def plain_def)

lemma Write_body_plain:
  assumes "i < length source" "plain (source ! i)"
  shows "Write_body ent source w (int i) n False = Inr (w, int i, n, False)"
  using assms by (simp add: Write_body_def index_def bnd_def plain_def)

lemma Write_loop_plain:
  assumes "list_all plain source"
  shows "i \<le> length source \<Longrightarrow> Write_loop ent source w (int i) 0 False = Inr (w @ source)"
proof (induction "length source - i" arbitrary: i)
  case 0
  then have "i = length source" by simp
  then show ?case
    by (subst Write_loop.simps) (simp add: slice_def bnd_def RawWrite_eq escape_plain assms)
next
  case (Suc k)
  then have lt: "i < length source" by simp
  then have "plain (source ! i)" using assms by (simp add: list_all_length)
  then have body: "Write_body ent source w (int i) 0 False = Inr (w, int i, 0, False)"
    using lt by (simp add: Write_body_plain)
  have "Write_loop ent source w (int (Suc i)) 0 False = Inr (w @ source)"
    using Suc.hyps(2) lt by (intro Suc.hyps(1)) auto
  then show ?case using lt body
    by (subst Write_loop.simps) (simp add: add.commute)
qed

text \<open>
  Claim C3. On an input that holds none of the bytes \<open>&\<close>, backslash, \<open>"\<close>, \<open><\<close>,
  \<open>>\<close>, \<open>Write\<close> returns normally and appends exactly the input to the sink.
\<close>

theorem Write_identity_plain:
  assumes "CHR ''&'' \<notin> set s" "CHR 0x5C \<notin> set s" "CHR 0x22 \<notin> set s"
    "CHR ''<'' \<notin> set s" "CHR ''>'' \<notin> set s"
  shows "defaultWriter_Write ent w s = Inr (w @ s)"
proof -
  have "list_all plain s" using assms by (auto simp: list_all_iff plain_def)
  then show ?thesis
    using Write_loop_plain[of s 0 ent w] by (simp add: defaultWriter_Write_def)
qed

theorem Write_identity_plain_witness:
  "CHR ''&'' \<notin> set ''Hello, world'' \<and> CHR 0x5C \<notin> set ''Hello, world''
   \<and> CHR 0x22 \<notin> set ''Hello, world'' \<and> CHR ''<'' \<notin> set ''Hello, world''
   \<and> CHR ''>'' \<notin> set ''Hello, world''
   \<and> defaultWriter_Write (\<lambda>name. None) [] ''Hello, world'' = Inr ''Hello, world''"
  using Write_identity_plain[of "''Hello, world''" "\<lambda>name. None" "[]"] by simp

subsection \<open>Write on character references\<close>

text \<open>
  Claim C4. \<open>Write\<close> is meant to complete on every input with all indexing in bounds. On
  the two bytes \<open>&#\<close> it does not: \<open>nc := source[nnext]\<close> is read before the test
  \<open>nnext < limit\<close>, so the call panics with an index out of range, whatever the entity
  table and the sink hold.
\<close>

theorem Write_truncated_reference_panics:
  "defaultWriter_Write ent w ''&#'' = Inl IndexOutOfRange"
  by (simp add: Write_eval cong: bnd_weak_cong)

text \<open>
  Bounds of the other reads and slices of \<open>Write\<close>. At the head of the loop
  \<open>0 \<le> n \<le> i \<le> len(source)\<close>, and \<open>n < i\<close> when \<open>escaped\<close> is set.
\<close>

lemma readWhile_loop_total:
  "0 \<le> j \<Longrightarrow> j \<le> hi \<Longrightarrow> hi \<le> int (length source) \<Longrightarrow>
   \<exists>j' ok'. readWhile_loop source j hi pred ok = Inr (j', ok') \<and> j \<le> j' \<and> j' \<le> hi"
proof (induction source j hi pred ok rule: readWhile_loop.induct)
  case (1 source j hi pred ok)
  show ?case
  proof (cases "j < hi")
    case False
    then show ?thesis using "1.prems" by (subst readWhile_loop.simps) simp
  next
    case True
    then have ix: "index source j = Inr (source ! nat j)"
      using "1.prems" by (simp add: index_def)
    show ?thesis
    proof (cases "pred (source ! nat j)")
      case False
      then show ?thesis using True ix by (subst readWhile_loop.simps) (simp add: bnd_def)
    next
      case p: True
      have "\<exists>j' ok'. readWhile_loop source (j + 1) hi pred True = Inr (j', ok') \<and> j + 1 \<le> j' \<and> j' \<le> hi"
        using "1.IH"[OF True p] "1.prems" True by simp
      then show ?thesis using True ix p
        by (subst readWhile_loop.simps) (auto simp: bnd_def)
    qed
  qed
qed

lemma readWhile_total:
  "0 \<le> lo \<Longrightarrow> lo \<le> hi \<Longrightarrow> hi \<le> int (length source) \<Longrightarrow>
   \<exists>j ok. readWhile source (lo, hi) pred = Inr (j, ok) \<and> lo \<le> j \<and> j \<le> hi"
  using readWhile_loop_total[of lo hi source pred False] by (simp add: readWhile_def)

lemma RawWrite_total: "\<exists>w'. defaultWriter_RawWrite w s = Inr w'"
  by (simp add: RawWrite_eq)

lemma slice_total:
  "0 \<le> lo \<Longrightarrow> lo \<le> hi \<Longrightarrow> hi \<le> int (length s) \<Longrightarrow> \<exists>t. slice s lo hi = Inr t"
  by (simp add: slice_def)

lemma index_total: "0 \<le> i \<Longrightarrow> i < int (length s) \<Longrightarrow> \<exists>c. index s i = Inr c"
  by (simp add: index_def)

definition step_ok :: "int \<Rightarrow> (string \<times> int \<times> int) option res \<Rightarrow> bool" where
  \<comment> \<open>A reference form did not panic, and where it took its \<open>continue\<close>, \<open>i\<close> is the
      position of the \<open>;\<close> and \<open>n\<close> the position after it.\<close>
  "step_ok limit m = (case m of Inl p \<Rightarrow> False | Inr None \<Rightarrow> True
      | Inr (Some (w', i', n')) \<Rightarrow> i' < limit \<and> n' = i' + 1)"

lemma step_ok_None: "step_ok limit (Inr None)"
  by (simp add: step_ok_def)

lemma Write_hex_total:
  assumes "0 \<le> n" "n \<le> pos" "pos < nnext" "nnext < limit" "limit = int (length source)"
  shows "step_ok limit (Write_hex source w n pos nnext limit)"
proof -
  obtain j ok where rw: "readWhile source (nnext + 1, limit) IsHexDecimal = Inr (j, ok)"
    and j: "nnext + 1 \<le> j" "j \<le> limit"
    using readWhile_total[of "nnext + 1" limit source IsHexDecimal] assms by auto
  show ?thesis
  proof (cases "ok \<and> j < limit \<and> source ! nat j = CHR '';''")
    case False
    then show ?thesis using rw j assms
      by (auto simp: Write_hex_def bnd_def index_def step_ok_def)
  next
    case True
    obtain ds where ds: "slice source (nnext + 1) j = Inr ds"
      using slice_total[of "nnext + 1" j source] j assms by auto
    obtain s where s: "slice source n pos = Inr s"
      using slice_total[of n pos source] assms by auto
    obtain w' where w': "defaultWriter_RawWrite w s = Inr w'"
      using RawWrite_total by blast
    show ?thesis using True rw j assms ds s w'
      by (simp add: Write_hex_def bnd_def index_def step_ok_def)
  qed
qed

lemma Write_decimal_total:
  assumes "0 \<le> n" "n \<le> pos" "pos < nnext" "nnext < limit" "limit = int (length source)"
  shows "step_ok limit (Write_decimal source w n pos nnext limit)"
proof -
  obtain j ok where rw: "readWhile source (nnext, limit) IsNumeric = Inr (j, ok)"
    and j: "nnext \<le> j" "j \<le> limit"
    using readWhile_total[of nnext limit source IsNumeric] assms by auto
  show ?thesis
  proof (cases "ok \<and> j < limit \<and> j - nnext < 8 \<and> source ! nat j = CHR '';''")
    case False
    then show ?thesis using rw j assms
      by (auto simp: Write_decimal_def bnd_def index_def step_ok_def)
  next
    case True
    obtain ds where ds: "slice source nnext j = Inr ds"
      using slice_total[of nnext j source] j assms by auto
    obtain s where s: "slice source n pos = Inr s"
      using slice_total[of n pos source] assms by auto
    obtain w' where w': "defaultWriter_RawWrite w s = Inr w'"
      using RawWrite_total by blast
    show ?thesis using True rw j assms ds s w'
      by (simp add: Write_decimal_def bnd_def index_def step_ok_def)
  qed
qed

lemma Write_named_total:
  assumes "0 \<le> n" "n \<le> pos" "pos < next" "next \<le> limit" "limit = int (length source)"
  shows "step_ok limit (Write_named ent source w n pos next limit)"
proof -
  obtain j ok where rw: "readWhile source (next, limit) IsAlphaNumeric = Inr (j, ok)"
    and j: "next \<le> j" "j \<le> limit"
    using readWhile_total[of "next" limit source IsAlphaNumeric] assms by auto
  show ?thesis
  proof (cases "ok \<and> j < limit \<and> source ! nat j = CHR '';''")
    case False
    then show ?thesis using rw j assms
      by (auto simp: Write_named_def bnd_def index_def step_ok_def)
  next
    case True
    obtain name where name: "slice source next j = Inr name"
      using slice_total[of "next" j source] j assms by auto
    obtain s where s: "slice source n pos = Inr s"
      using slice_total[of n pos source] assms by auto
    obtain w' where w': "defaultWriter_RawWrite w s = Inr w'"
      using RawWrite_total by blast
    show ?thesis using True rw j assms name s w'
      by (auto simp: Write_named_def bnd_def index_def step_ok_def RawWrite_eq split: option.splits)
  qed
qed


lemma ends_with_two:
  assumes "int (length s) = i + 2" "0 \<le> i" "s ! nat i = a" "s ! nat (i + 1) = b"
  shows "HasSuffix s [a, b]"
proof -
  obtain k where k: "i = int k" using assms(2) by (metis nonneg_int_cases)
  then have len: "length s = Suc (Suc k)" using assms(1) by simp
  have a: "drop (Suc k) s = [s ! Suc k]" using Cons_nth_drop_Suc[of "Suc k" s] len by simp
  have "drop k s = s ! k # drop (Suc k) s" using Cons_nth_drop_Suc[of k s] len by simp
  then have "drop k s = [a, b]" using a assms(3,4) k by (simp add: nat_add_distrib)
  then show ?thesis using len by (simp add: HasSuffix_def)
qed

lemma Write_reference_total:
  assumes "0 \<le> n" "n \<le> i" "i < int (length source)" "source ! nat i = CHR ''&''"
    "\<not> HasSuffix source ''&#''"
  shows "step_ok (int (length source)) (Write_reference ent source w n i)"
proof (cases "i + 1 < int (length source) \<and> source ! nat (i + 1) = CHR ''#''")
  case False
  have "step_ok (int (length source)) (Write_named ent source w n i (i + 1) (int (length source)))"
    using assms by (intro Write_named_total) auto
  then show ?thesis using False assms
    by (auto simp: Write_reference_def bnd_def index_def Let_def)
next
  case True
  have lt: "i + 2 < int (length source)"
  proof (rule ccontr)
    assume "\<not> i + 2 < int (length source)"
    then have "int (length source) = i + 2" using True by simp
    then have "HasSuffix source ''&#''"
      using ends_with_two[of source i "CHR ''&''" "CHR ''#''"] assms True by simp
    then show False using assms(5) by simp
  qed
  have hex: "step_ok (int (length source)) (Write_hex source w n i (i + 1 + 1) (int (length source)))"
    using assms lt by (intro Write_hex_total) auto
  have dec: "step_ok (int (length source)) (Write_decimal source w n i (i + 1 + 1) (int (length source)))"
    using assms lt by (intro Write_decimal_total) auto
  show ?thesis using True assms lt hex dec
    by (simp add: Write_reference_def bnd_def index_def Let_def step_ok_None)
qed

definition loop_inv :: "string \<Rightarrow> int \<Rightarrow> int \<Rightarrow> bool \<Rightarrow> bool" where
  \<comment> \<open>The invariant at the head of the loop of \<open>Write\<close>.\<close>
  "loop_inv source i n escaped =
     (0 \<le> n \<and> n \<le> i \<and> i \<le> int (length source) \<and> (if escaped then n < i else True))"

lemma IsPunct_amp: "IsPunct CHR ''&''"
  by (simp add: IsPunct_def)

lemma Write_body_total:
  assumes "loop_inv source i n escaped" "i < int (length source)" "\<not> HasSuffix source ''&#''"
  shows "\<exists>w' i' n' e'. Write_body ent source w i n escaped = Inr (w', i', n', e')
           \<and> i \<le> i' \<and> loop_inv source (i' + 1) n' e'"
proof -
  let ?c = "source ! nat i"
  have i0: "0 \<le> i" "0 \<le> n" "n \<le> i" using assms(1) by (auto simp: loop_inv_def)
  have ix: "index source i = Inr ?c" using i0 assms(2) by (simp add: index_def)
  have fin: "\<exists>w' i' n' e'. Write_body ent source w i n escaped = Inr (w', i', n', e')
           \<and> i \<le> i' \<and> loop_inv source (i' + 1) n' e'"
    if "Write_body ent source w i n escaped = Inr (w', i', n', e')" "i \<le> i'"
      "loop_inv source (i' + 1) n' e'" for w' i' n' e'
    using that by blast
  consider (esc) "escaped \<and> IsPunct ?c" | (amp) "\<not> escaped" "?c = CHR ''&''"
    | (other) "\<not> (escaped \<and> IsPunct ?c)" "?c \<noteq> CHR ''&''"
    using IsPunct_amp by metis
  then show ?thesis
  proof cases
    case esc
    then have "n < i" using assms(1) by (simp add: loop_inv_def)
    then obtain s where "slice source n (i - 1) = Inr s"
      using i0 assms(2) slice_total[of n "i - 1" source] by auto
    then have "Write_body ent source w i n escaped = Inr (w @ concat (map escapeByte s), i, i, False)"
      using esc ix by (simp add: Write_body_def bnd_def RawWrite_eq)
    then show ?thesis
      by (rule fin) (use i0 assms(2) in \<open>simp_all add: loop_inv_def\<close>)
  next
    case amp
    have ok: "step_ok (int (length source)) (Write_reference ent source w n i)"
      using i0 assms amp by (intro Write_reference_total) auto
    show ?thesis
    proof (cases "Write_reference ent source w n i")
      case (Inl p)
      then show ?thesis using ok by (simp add: step_ok_def)
    next
      case (Inr r)
      show ?thesis
      proof (cases r)
        case None
        then have "Write_body ent source w i n escaped = Inr (w, i, n, False)"
          using Inr amp ix by (simp add: Write_body_def bnd_def)
        then show ?thesis
      by (rule fin) (use i0 assms(2) in \<open>simp_all add: loop_inv_def\<close>)
      next
        case (Some t)
        obtain w' i' n' where t: "t = (w', i', n')" by (cases t) auto
        have adv: "i < i'" using Inr Some t Write_reference_advances by blast
        have lim: "i' < int (length source)" "n' = i' + 1"
          using ok Inr Some t by (simp_all add: step_ok_def)
        have "Write_body ent source w i n escaped = Inr (w', i', n', escaped)"
          using Inr Some t amp ix by (simp add: Write_body_def bnd_def)
        then show ?thesis
          by (rule fin) (use adv lim i0 amp in \<open>simp_all add: loop_inv_def\<close>)
      qed
    qed
  next
    case other
    then have "\<not> (escaped \<and> IsPunct ?c)" by simp
    then have "Write_body ent source w i n escaped = Inr (w, i, n, ?c = CHR 0x5C)"
      using ix other(2) by (simp only: Write_body_def bnd_Inr if_False) simp
    then show ?thesis
      by (rule fin) (use i0 assms(2) in \<open>simp_all add: loop_inv_def\<close>)
  qed
qed

lemma Write_loop_total:
  assumes "\<not> HasSuffix source ''&#''"
  shows "loop_inv source i n escaped \<Longrightarrow> \<exists>out. Write_loop ent source w i n escaped = Inr out"
proof (induction "nat (int (length source) - i)" arbitrary: w i n escaped rule: less_induct)
  case less
  show ?case
  proof (cases "i < int (length source)")
    case False
    then have "i = int (length source)" using less.prems by (simp add: loop_inv_def)
    moreover have "\<exists>s. slice source n (int (length source)) = Inr s"
      using less.prems by (intro slice_total) (auto simp: loop_inv_def)
    ultimately show ?thesis
      by (subst Write_loop.simps) (auto simp: bnd_def RawWrite_eq)
  next
    case True
    obtain w' i' n' e' where body: "Write_body ent source w i n escaped = Inr (w', i', n', e')"
      and adv: "i \<le> i'" and inv': "loop_inv source (i' + 1) n' e'"
      using Write_body_total[OF less.prems True assms] by blast
    have "nat (int (length source) - (i' + 1)) < nat (int (length source) - i)"
      using adv True by simp
    then have "\<exists>out. Write_loop ent source w' (i' + 1) n' e' = Inr out"
      using less.hyps inv' by blast
    then show ?thesis using True body by (subst Write_loop.simps) simp
  qed
qed

text \<open>
  The read of \<open>source[nnext]\<close> is the only place where \<open>Write\<close> can panic: on every input
  that does not end in the two bytes \<open>&#\<close> it returns normally.
\<close>

lemma Write_returns_unless_truncated:
  "\<not> HasSuffix s ''&#'' \<Longrightarrow> \<exists>out. defaultWriter_Write ent w s = Inr out"
  using Write_loop_total[of s 0 0 False ent w]
  by (simp add: defaultWriter_Write_def loop_inv_def)

text \<open>
  Claim C5. \<open>&#\<close>, one to seven decimal digits and \<open>;\<close> is meant to decode to the decimal
  value of the digits. The code parses the digits with base 0, which reads a leading
  \<open>0\<close> as the octal prefix: \<open>&#010;\<close> is written as the byte 8, not as the code point 10.
\<close>

theorem Write_decimal_reference_leading_zero:
  "defaultWriter_Write ent w ''&#010;'' = Inr (w @ [CHR 0x08])"
  by (simp add: Write_eval cong: bnd_weak_cong)

text \<open>
  Claim C6, as the code has it. On the input \<open>&#zz;\<close> no reference is recognised, and the
  five bytes are written as literal text through the Escape Table: the \<open>&\<close> becomes
  \<open>&amp;\<close>, the other four bytes are unchanged.
\<close>

theorem Write_malformed_reference_escaped:
  "defaultWriter_Write ent w ''&#zz;'' = Inr (w @ ''&amp;#zz;'')"
  by (simp add: Write_eval cong: bnd_weak_cong)

text \<open>Claim C6 as stated fails: the output for \<open>&#zz;\<close> is not the input.\<close>

theorem Write_malformed_reference_not_verbatim:
  "defaultWriter_Write (\<lambda>name. None) [] ''&#zz;'' \<noteq> Inr ''&#zz;''"
  by (simp add: Write_eval cong: bnd_weak_cong)

text \<open>
  Claim C7. With an entity table that maps \<open>amp\<close> to the byte \<open>&\<close>, \<open>Write\<close> on the input
  \<open>&amp;\<close> appends exactly \<open>&amp;\<close>: the reference is decoded and its character escaped
  again, once.
\<close>

theorem Write_amp_roundtrip:
  "ent ''amp'' = Some ''&'' \<Longrightarrow> defaultWriter_Write ent w ''&amp;'' = Inr (w @ ''&amp;'')"
  by (simp add: Write_eval cong: bnd_weak_cong)

theorem Write_amp_roundtrip_witness:
  "(\<lambda>name. if name = ''amp'' then Some ''&'' else None) ''amp'' = Some ''&''
   \<and> defaultWriter_Write (\<lambda>name. if name = ''amp'' then Some ''&'' else None) [] ''&amp;''
       = Inr ''&amp;''"
  using Write_amp_roundtrip[of "\<lambda>name. if name = ''amp'' then Some ''&'' else None" "[]"]
  by simp

section \<open>Properties of the tree renderer\<close>

subsection \<open>The closed set of kinds and the directives\<close>

fun supported :: "Kind \<Rightarrow> bool" where
  \<comment> \<open>The closed set of the spec: the eleven block kinds and the seven inline kinds.\<close>
  "supported Document = True"
| "supported (Heading level ident) = True"
| "supported Blockquote = True"
| "supported CodeBlock = True"
| "supported (FencedCodeBlock info) = True"
| "supported (HTMLBlock hasClosure closure) = True"
| "supported (List isOrdered start) = True"
| "supported ListItem = True"
| "supported Paragraph = True"
| "supported TextBlock = True"
| "supported ThemanticBreak = True"
| "supported (AutoLink t v) = True"
| "supported CodeSpan = True"
| "supported (Emphasis level) = True"
| "supported (Image destination title) = True"
| "supported (Link destination title) = True"
| "supported RawHTML = True"
| "supported (Text segment isRaw hard soft) = True"
| "supported Other = False"

fun skipsChildren :: "Kind \<Rightarrow> bool" where
  \<comment> \<open>The kinds of claim C10 whose enter phase reports SkipChildren.\<close>
  "skipsChildren CodeSpan = True"
| "skipsChildren (Image destination title) = True"
| "skipsChildren k = False"

definition example_externals :: externals where
  \<comment> \<open>An instance of the library functions, for the concrete inputs below: no escaping, no
      lower-casing, an empty flattened text.\<close>
  "example_externals =
     \<lparr>EscapeHTML = (\<lambda>s. s), URLEscape = (\<lambda>s resolveReference. s),
      ToLower = (\<lambda>s. s), NodeText = (\<lambda>n source. Inr [])\<rparr>"

definition example_config :: Config where
  \<comment> \<open>The default configuration over an empty entity table, for the concrete inputs below.\<close>
  "example_config = NewConfig (\<lambda>name. None)"

definition in_bounds :: "string \<Rightarrow> Segment \<Rightarrow> bool" where
  \<comment> \<open>The invariant of a Segment in the spec: \<open>0 \<le> start \<le> end \<le> len(buffer)\<close>.\<close>
  "in_bounds source seg =
     (0 \<le> Start seg \<and> Start seg \<le> Stop seg \<and> Stop seg \<le> int (length source))"

definition segment_bytes :: "Segment \<Rightarrow> string \<Rightarrow> string" where
  \<comment> \<open>The bytes of the source a Segment within bounds views.\<close>
  "segment_bytes seg source = take (nat (Stop seg - Start seg)) (drop (nat (Start seg)) source)"

definition returns_on :: "(string \<Rightarrow> string \<Rightarrow> string res) \<Rightarrow> string \<Rightarrow> bool" where
  \<comment> \<open>A method of the configured Writer returns, without a panic, on the text \<open>s\<close>, whatever
      the sink holds.\<close>
  "returns_on f s = (\<forall>w. \<exists>w'. f w s = Inr w')"

definition RawWrite_returns :: "Renderer \<Rightarrow> bool" where
  \<comment> \<open>\<open>RawWrite\<close> of the configured Writer returns on every text.\<close>
  "RawWrite_returns r = (\<forall>s. returns_on (RawWrite (Writer r)) s)"

definition title_ok :: "Renderer \<Rightarrow> string option \<Rightarrow> bool" where
  \<comment> \<open>\<open>Write\<close> of the configured Writer returns on the title, when there is one.\<close>
  "title_ok r title = (case title of None \<Rightarrow> True | Some t \<Rightarrow> returns_on (Write (Writer r)) t)"

definition text_child :: "string \<Rightarrow> Node \<Rightarrow> bool" where
  \<comment> \<open>A child of a CodeSpan as the code expects it: a Text whose Segment is within bounds.\<close>
  "text_child source c =
     (case kind c of Text segment isRaw hard soft \<Rightarrow> in_bounds source segment | _ \<Rightarrow> False)"

definition well_formed :: "Renderer \<Rightarrow> externals \<Rightarrow> string \<Rightarrow> Node \<Rightarrow> bool \<Rightarrow> bool" where
  \<comment> \<open>What one call of \<open>Render\<close> assumes and does not check, by kind and phase: the
      Segments it reads lie within the source, the level of a Heading indexes \<open>"0123456"\<close>,
      an AutoLink has its value, the children of a CodeSpan are Texts, and the collaborators
      (the configured Writer on the texts handed to it, the flattened text of an Image)
      return. A rule that reads none of these has no condition.\<close>
  "well_formed r u source n entering =
     (case kind n of
        Document \<Rightarrow> True
      | Blockquote \<Rightarrow> True
      | List isOrdered start \<Rightarrow> True
      | ListItem \<Rightarrow> True
      | Paragraph \<Rightarrow> True
      | TextBlock \<Rightarrow> True
      | ThemanticBreak \<Rightarrow> True
      | Emphasis level \<Rightarrow> True
      | RawHTML \<Rightarrow> True
      | Other \<Rightarrow> True
      | Heading level ident \<Rightarrow> 0 \<le> level \<and> level \<le> 6
      | CodeBlock \<Rightarrow>
          (if entering then RawWrite_returns r \<and> list_all (in_bounds source) (Lines n) else True)
      | FencedCodeBlock info \<Rightarrow>
          (if entering then
             RawWrite_returns r \<and> list_all (in_bounds source) (Lines n)
             \<and> (case info of
                  None \<Rightarrow> True
                | Some segment \<Rightarrow>
                    in_bounds source segment
                    \<and> returns_on (Write (Writer r))
                         (takeWhile (\<lambda>c. c \<noteq> CHR '' '') (segment_bytes segment source)))
           else True)
      | HTMLBlock hasClosure closure \<Rightarrow>
          (if entering then list_all (in_bounds source) (Lines n)
           else if hasClosure then in_bounds source closure else True)
      | AutoLink t v \<Rightarrow>
          (if entering then (case v of None \<Rightarrow> False | Some segment \<Rightarrow> in_bounds source segment)
           else True)
      | CodeSpan \<Rightarrow>
          (if entering then RawWrite_returns r \<and> list_all (text_child source) (Children n)
           else True)
      | Image destination title \<Rightarrow>
          (if entering then (\<exists>text. NodeText u n source = Inr text) \<and> title_ok r title else True)
      | Link destination title \<Rightarrow> (if entering then title_ok r title else True)
      | Text segment isRaw hard soft \<Rightarrow>
          (if entering then
             in_bounds source segment
             \<and> (if isRaw then True
                 else returns_on (Write (Writer r)) (segment_bytes segment source))
           else True))"

lemma returns_Inr: "returns m err = Inr (w, st, e) \<longleftrightarrow> m = Inr (w, st) \<and> e = err"
  by (auto simp: returns_def bnd_def split: sum.splits)

lemma returns_simps: "returns (Inr (w, st)) err = Inr (w, st, err)" "returns (Inl p) err = Inl p"
  by (simp_all add: returns_def bnd_def)

lemmas render_defs =
  renderDocument_def renderHeading_def renderBlockquote_def renderCodeBlock_def
  renderFencedCodeBlock_def renderHTMLBlock_def renderList_def renderListItem_def
  renderParagraph_def renderTextBlock_def renderThemanticBreak_def renderAutoLink_def
  renderCodeSpan_def renderEmphasis_def renderLink_def renderImage_def renderRawHTML_def
  renderText_def

lemmas example_simps =
  example_config_def example_externals_def NewConfig_def DefaultWriter_def Render_def
  returns_simps bnd_Inl bnd_Inr Value_def slice_def index_def FirstChild_def
  WriteString_def WriteByte_def WriteBytes_def HasPrefix_def HasSuffix_def

lemma RawWrite_ab: "defaultWriter_RawWrite w ''ab'' = Inr (w @ ''ab'')"
  by (simp add: RawWrite_eq escapeByte_def)

text \<open>
  What every return of \<open>Render\<close> for a supported kind carries: case analysis over the
  eighteen emission rules.
\<close>

lemma Render_status:
  assumes "Render r u w source n nxt entering = Inr (w', st, err)" "supported (kind n)"
  shows "st = (if entering \<and> skipsChildren (kind n) then WalkSkipChildren else WalkContinue)
    \<and> err = None"
  using assms
  by (cases "kind n")
     (auto simp: Render_def returns_Inr render_defs bnd_def Let_def
           split: if_splits sum.splits option.splits Kind.splits)

lemma Value_in_bounds:
  "in_bounds source seg \<Longrightarrow> Value seg source = Inr (segment_bytes seg source)"
  by (simp add: in_bounds_def Value_def slice_def segment_bytes_def)

lemma returns_onD: "returns_on f s \<Longrightarrow> \<exists>w'. f w s = Inr w'"
  by (simp add: returns_on_def)

lemma RawWrite_returnsD: "RawWrite_returns r \<Longrightarrow> \<exists>w'. RawWrite (Writer r) w s = Inr w'"
  by (simp add: RawWrite_returns_def returns_on_def)

lemma writeLines_loop_returns:
  "RawWrite_returns r \<Longrightarrow> list_all (in_bounds source) ls \<Longrightarrow>
   \<exists>w'. writeLines_loop r w source ls = Inr w'"
proof (induction ls arbitrary: w)
  case Nil
  then show ?case by simp
next
  case (Cons l ls)
  obtain w1 where w1: "RawWrite (Writer r) w (segment_bytes l source) = Inr w1"
    using RawWrite_returnsD[OF Cons.prems(1)] by blast
  obtain w' where "writeLines_loop r w1 source ls = Inr w'"
    using Cons.IH[of w1] Cons.prems by auto
  then show ?case using Cons.prems(2) w1 by (simp add: Value_in_bounds bnd_def)
qed

lemma writeValues_returns:
  "list_all (in_bounds source) ls \<Longrightarrow> \<exists>w'. writeValues w source ls = Inr w'"
proof (induction ls arbitrary: w)
  case Nil
  then show ?case by simp
next
  case (Cons l ls)
  obtain w' where "writeValues (WriteBytes w (segment_bytes l source)) source ls = Inr w'"
    using Cons.IH Cons.prems by auto
  then show ?case using Cons.prems by (simp add: Value_in_bounds bnd_def)
qed

lemma renderCodeSpan_loop_returns:
  "RawWrite_returns r \<Longrightarrow> list_all (text_child source) cs \<Longrightarrow>
   \<exists>w'. renderCodeSpan_loop r w source cs = Inr w'"
proof (induction cs arbitrary: w)
  case Nil
  then show ?case by simp
next
  case (Cons c cs)
  from Cons.prems(2) obtain segment isRaw hard soft
    where k: "kind c = Text segment isRaw hard soft" and b: "in_bounds source segment"
    by (auto simp: text_child_def split: Kind.splits)
  let ?bytes = "segment_bytes segment source"
  have rest: "\<exists>w'. renderCodeSpan_loop r w1 source cs = Inr w'" for w1
    using Cons.IH Cons.prems by auto
  show ?case
  proof (cases "HasSuffix ?bytes [NL]")
    case False
    obtain w1 where w1: "RawWrite (Writer r) w ?bytes = Inr w1"
      using RawWrite_returnsD[OF Cons.prems(1)] by blast
    then show ?thesis using k b False rest[of w1]
      by (simp add: Value_in_bounds bnd_def)
  next
    case True
    then have len: "1 \<le> length ?bytes" by (simp add: HasSuffix_def)
    then have "\<exists>v. slice ?bytes 0 (int (length ?bytes) - 1) = Inr v"
      by (intro slice_total) auto
    then obtain v where v: "slice ?bytes 0 (int (length ?bytes) - 1) = Inr v" by blast
    obtain w1 where w1: "RawWrite (Writer r) w v = Inr w1"
      using RawWrite_returnsD[OF Cons.prems(1)] by blast
    obtain w2 where w2: "(if cs \<noteq> [] then RawWrite (Writer r) w1 '' '' else Inr w1) = Inr w2"
      using RawWrite_returnsD[OF Cons.prems(1), of w1 "'' ''"] by (cases "cs = []") auto
    show ?thesis using k b True v w1 w2 rest[of w2]
      by (simp add: Value_in_bounds bnd_def)
  qed
qed


lemma returns_on_choice: "returns_on f s \<Longrightarrow> \<exists>g. \<forall>w. f w s = Inr (g w)"
  unfolding returns_on_def by metis

lemma well_formed_unconditional:
  assumes "kind n \<in> {Document, Blockquote, ListItem, Paragraph, TextBlock, ThemanticBreak, RawHTML}
    \<or> (\<exists>isOrdered start. kind n = List isOrdered start) \<or> (\<exists>level. kind n = Emphasis level)"
  shows "well_formed r u source n entering"
  using assms by (auto simp: well_formed_def)

lemma default_RawWrite_returns: "RawWrite_returns (NewConfig ent)"
  by (simp add: RawWrite_returns_def returns_on_def NewConfig_def DefaultWriter_def RawWrite_eq)

lemma default_Write_returns_on:
  "\<not> HasSuffix s ''&#'' \<Longrightarrow> returns_on (Write (Writer (NewConfig ent))) s"
  using Write_returns_unless_truncated
  by (simp add: returns_on_def NewConfig_def DefaultWriter_def)

text \<open>
  On well-formed input \<open>Render\<close> returns, for every supported kind and either phase, with a
  \<open>nil\<close> error and the directive of its rule.
\<close>

lemma Render_returns:
  assumes "supported (kind n)" "well_formed r u source n entering"
  shows "\<exists>w'. Render r u w source n nxt entering =
           Inr (w', if entering \<and> skipsChildren (kind n) then WalkSkipChildren else WalkContinue, None)"
proof (cases "kind n")
  case Document
  then show ?thesis by (simp add: Render_def returns_simps renderDocument_def)
next
  case (Heading level ident)
  then have "0 \<le> level" "level \<le> 6" using assms(2) by (simp_all add: well_formed_def)
  then obtain c where "index ''0123456'' level = Inr c" by (auto simp: index_def)
  then show ?thesis using Heading
    by (simp add: Render_def returns_simps renderHeading_def bnd_def Let_def)
next
  case Blockquote
  then show ?thesis by (simp add: Render_def returns_simps renderBlockquote_def)
next
  case CodeBlock
  show ?thesis
  proof (cases entering)
    case True
    then obtain w' where "writeLines_loop r (WriteString w ''<pre><code>'') source (Lines n) = Inr w'"
      using assms(2) CodeBlock writeLines_loop_returns[of r source "Lines n"]
      by (auto simp: well_formed_def)
    then show ?thesis using CodeBlock True
      by (simp add: Render_def returns_simps renderCodeBlock_def writeLines_def bnd_def)
  next
    case False
    then show ?thesis using CodeBlock by (simp add: Render_def returns_simps renderCodeBlock_def)
  qed
next
  case (FencedCodeBlock info)
  show ?thesis
  proof (cases entering)
    case False
    then show ?thesis using FencedCodeBlock
      by (simp add: Render_def returns_simps renderFencedCodeBlock_def)
  next
    case True
    have wf: "RawWrite_returns r" "list_all (in_bounds source) (Lines n)"
      using assms(2) FencedCodeBlock True by (simp_all add: well_formed_def)
    let ?w1 = "WriteString w ''<pre><code''"
    let ?attr = "case info of
        Some segment \<Rightarrow>
          bnd (Value segment source) (\<lambda>info.
            let language = takeWhile (\<lambda>c. c \<noteq> CHR '' '') info;
                w2 = WriteString ?w1 ('' class='' @ [DQ] @ ''language-'')
            in bnd (Write (Writer r) w2 language) (\<lambda>w3. Inr (WriteString w3 [DQ])))
      | None \<Rightarrow> Inr ?w1"
    have "\<exists>w4. ?attr = Inr w4"
    proof (cases info)
      case None
      then show ?thesis by simp
    next
      case (Some segment)
      then have b: "in_bounds source segment"
        and wr: "returns_on (Write (Writer r))
                   (takeWhile (\<lambda>c. c \<noteq> CHR '' '') (segment_bytes segment source))"
        using assms(2) FencedCodeBlock True by (simp_all add: well_formed_def)
      obtain w3 where "Write (Writer r) (WriteString ?w1 ('' class='' @ [DQ] @ ''language-''))
          (takeWhile (\<lambda>c. c \<noteq> CHR '' '') (segment_bytes segment source)) = Inr w3"
        using returns_onD[OF wr] by blast
      then show ?thesis using Some b by (simp add: Value_in_bounds bnd_def Let_def)
    qed
    then obtain w4 where w4: "?attr = Inr w4" by blast
    obtain w5 where "writeLines_loop r (WriteByte w4 CHR ''>'') source (Lines n) = Inr w5"
      using writeLines_loop_returns[OF wf] by blast
    then show ?thesis using FencedCodeBlock True w4
      by (simp add: Render_def returns_simps renderFencedCodeBlock_def writeLines_def bnd_def)
  qed
next
  case (HTMLBlock hasClosure closure)
  show ?thesis
  proof (cases entering)
    case True
    then obtain w' where "writeValues w source (Lines n) = Inr w'"
      using assms(2) HTMLBlock writeValues_returns[of source "Lines n" w]
      by (auto simp: well_formed_def)
    then show ?thesis using HTMLBlock True
      by (simp add: Render_def returns_simps renderHTMLBlock_def bnd_def)
  next
    case False
    then show ?thesis using HTMLBlock assms(2)
      by (simp add: Render_def returns_simps renderHTMLBlock_def bnd_def well_formed_def
          Value_in_bounds)
  qed
next
  case (List isOrdered start)
  then show ?thesis by (simp add: Render_def returns_simps renderList_def Let_def)
next
  case ListItem
  then show ?thesis
    by (simp add: Render_def returns_simps renderListItem_def Let_def
        split: option.splits Kind.splits)
next
  case Paragraph
  then show ?thesis by (simp add: Render_def returns_simps renderParagraph_def)
next
  case TextBlock
  then show ?thesis by (simp add: Render_def returns_simps renderTextBlock_def)
next
  case ThemanticBreak
  then show ?thesis by (simp add: Render_def returns_simps renderThemanticBreak_def)
next
  case (AutoLink t v)
  then show ?thesis using assms(2)
    by (auto simp: Render_def returns_simps renderAutoLink_def well_formed_def Value_in_bounds
        bnd_def Let_def split: option.splits)
next
  case CodeSpan
  show ?thesis
  proof (cases entering)
    case True
    then obtain w' where
      "renderCodeSpan_loop r (WriteString w ''<code>'') source (Children n) = Inr w'"
      using assms(2) CodeSpan renderCodeSpan_loop_returns[of r source "Children n"]
      by (auto simp: well_formed_def)
    then show ?thesis using CodeSpan True
      by (simp add: Render_def returns_simps renderCodeSpan_def bnd_def)
  next
    case False
    then show ?thesis using CodeSpan by (simp add: Render_def returns_simps renderCodeSpan_def)
  qed
next
  case (Emphasis level)
  then show ?thesis by (simp add: Render_def returns_simps renderEmphasis_def Let_def)
next
  case (Image destination title)
  show ?thesis
  proof (cases entering)
    case False
    then show ?thesis using Image by (simp add: Render_def returns_simps renderImage_def)
  next
    case True
    then obtain alt where alt: "NodeText u n source = Inr alt" and t: "title_ok r title"
      using assms(2) Image by (auto simp: well_formed_def)
    show ?thesis
    proof (cases title)
      case None
      then show ?thesis using Image True alt
        by (simp add: Render_def returns_simps renderImage_def bnd_def Let_def)
    next
      case (Some tt)
      then have "returns_on (Write (Writer r)) tt" using t by (simp add: title_ok_def)
      then obtain g where "\<And>w. Write (Writer r) w tt = Inr (g w)"
        using returns_on_choice by blast
      then show ?thesis using Image True alt Some
        by (simp add: Render_def returns_simps renderImage_def bnd_def Let_def)
    qed
  qed
next
  case (Link destination title)
  show ?thesis
  proof (cases entering)
    case False
    then show ?thesis using Link by (simp add: Render_def returns_simps renderLink_def)
  next
    case True
    then have t: "title_ok r title" using assms(2) Link by (simp add: well_formed_def)
    show ?thesis
    proof (cases title)
      case None
      then show ?thesis using Link True
        by (simp add: Render_def returns_simps renderLink_def bnd_def Let_def)
    next
      case (Some tt)
      then have "returns_on (Write (Writer r)) tt" using t by (simp add: title_ok_def)
      then obtain g where "\<And>w. Write (Writer r) w tt = Inr (g w)"
        using returns_on_choice by blast
      then show ?thesis using Link True Some
        by (simp add: Render_def returns_simps renderLink_def bnd_def Let_def)
    qed
  qed
next
  case RawHTML
  then show ?thesis by (simp add: Render_def returns_simps renderRawHTML_def)
next
  case (Text segment isRaw hard soft)
  show ?thesis
  proof (cases entering)
    case False
    then show ?thesis using Text by (simp add: Render_def returns_simps renderText_def)
  next
    case True
    then have b: "in_bounds source segment" using assms(2) Text by (simp add: well_formed_def)
    show ?thesis
    proof (cases isRaw)
      case True
      then show ?thesis using Text \<open>entering\<close> b
        by (simp add: Render_def returns_simps renderText_def bnd_def Value_in_bounds)
    next
      case False
      then have "returns_on (Write (Writer r)) (segment_bytes segment source)"
        using assms(2) Text \<open>entering\<close> by (simp add: well_formed_def)
      then obtain w1 where "Write (Writer r) w (segment_bytes segment source) = Inr w1"
        using returns_onD by blast
      then show ?thesis using Text \<open>entering\<close> b False
        by (simp add: Render_def returns_simps renderText_def bnd_def Value_in_bounds)
    qed
  qed
next
  case Other
  then show ?thesis using assms(1) by simp
qed

text \<open>
  Claim C1. \<open>Render\<close> returns an error exactly when the kind of the node is outside the
  closed set of eighteen kinds: for a node of any other kind it returns the one error
  \<open>NotSupported\<close> (with the status Continue and the sink untouched), and for a node of a
  supported kind, in either phase, every return has the error \<open>nil\<close>. (A run-time panic is
  not a return; it is the left summand of the result.)
\<close>

theorem Render_error_iff_unsupported:
  "((\<exists>w' st e. Render r u w source n nxt entering = Inr (w', st, Some e))
      \<longleftrightarrow> \<not> supported (kind n))
   \<and> (\<not> supported (kind n) \<longrightarrow>
        Render r u w source n nxt entering = Inr (w, WalkContinue, Some NotSupported))
   \<and> (supported (kind n) \<longrightarrow>
        (\<forall>w' st err. Render r u w source n nxt entering = Inr (w', st, err) \<longrightarrow> err = None))"
proof -
  have un: "Render r u w source n nxt entering = Inr (w, WalkContinue, Some NotSupported)"
    if "\<not> supported (kind n)"
    using that by (cases "kind n") (simp_all add: Render_def)
  have su: "err = None"
    if "supported (kind n)" "Render r u w source n nxt entering = Inr (w', st, err)" for w' st err
    using Render_status[OF that(2) that(1)] by simp
  show ?thesis using un su by (metis option.distinct(1))
qed

theorem Render_error_iff_unsupported_witness:
  "\<not> supported (kind (Node Other [] []))
   \<and> Render example_config example_externals [] [] (Node Other [] []) None True
       = Inr ([], WalkContinue, Some NotSupported)
   \<and> supported (kind (Node Paragraph [] []))
   \<and> Render example_config example_externals [] [] (Node Paragraph [] []) None True
       = Inr (''<p>'', WalkContinue, None)"
  using
    Render_error_iff_unsupported[of example_config example_externals "[]" "[]"
      "Node Other [] []" None True]
    Render_error_iff_unsupported[of example_config example_externals "[]" "[]"
      "Node Paragraph [] []" None True]
  by (simp add: example_simps renderParagraph_def)

text \<open>
  Claim C10. For a node of a supported kind, in either phase: on well-formed input
  \<open>Render\<close> returns, with a \<open>nil\<close> error and with the directive SkipChildren on entering a
  CodeSpan or an Image and Continue in every other case; and whatever the input, every
  return of \<open>Render\<close> carries that directive, so Stop is never returned.
\<close>

theorem Render_directive:
  assumes "supported (kind n)"
  shows "(well_formed r u source n entering \<longrightarrow>
           (\<exists>w'. Render r u w source n nxt entering =
              Inr (w', if entering \<and> skipsChildren (kind n) then WalkSkipChildren
                       else WalkContinue, None)))
    \<and> (\<forall>w' st err. Render r u w source n nxt entering = Inr (w', st, err) \<longrightarrow>
          st \<noteq> WalkStop
          \<and> st = (if entering \<and> skipsChildren (kind n) then WalkSkipChildren
                   else WalkContinue))"
proof (intro conjI impI allI)
  assume "well_formed r u source n entering"
  then show "\<exists>w'. Render r u w source n nxt entering =
      Inr (w', if entering \<and> skipsChildren (kind n) then WalkSkipChildren else WalkContinue, None)"
    using assms by (intro Render_returns)
next
  fix w' st err
  assume ret: "Render r u w source n nxt entering = Inr (w', st, err)"
  then show "st \<noteq> WalkStop" using Render_status[OF ret assms] by simp
  show "st = (if entering \<and> skipsChildren (kind n) then WalkSkipChildren else WalkContinue)"
    using Render_status[OF ret assms] by simp
qed

lemma example_title_returns: "title_ok example_config (Some ''t'')"
  using default_Write_returns_on[of "''t''"]
  by (simp add: title_ok_def example_config_def HasSuffix_def)

lemma Write_t: "defaultWriter_Write ent w ''t'' = Inr (w @ ''t'')"
  by (simp add: Write_eval cong: bnd_weak_cong)

theorem Render_directive_witness:
  "supported (kind (Node (Image ''x'' (Some ''t'')) [] []))
   \<and> well_formed example_config example_externals [] (Node (Image ''x'' (Some ''t'')) [] []) True
   \<and> Render example_config example_externals [] [] (Node (Image ''x'' (Some ''t'')) [] []) None True
       = Inr (''<img src='' @ [DQ] @ ''x'' @ [DQ] @ '' alt='' @ [DQ, DQ] @ '' title='' @ [DQ]
                @ ''t'' @ [DQ] @ ''>'', WalkSkipChildren, None)
   \<and> Render example_config example_externals [] [] (Node (Image ''x'' (Some ''t'')) [] []) None False
       = Inr ([], WalkContinue, None)
   \<and> Render example_config example_externals [] ''ab''
        (Node CodeSpan [] [Node (Text \<lparr>Start = 0, Stop = 2\<rparr> False False False) [] []]) None True
       = Inr (''<code>ab'', WalkSkipChildren, None)
   \<and> Render example_config example_externals [] [] (Node Paragraph [] []) None False
       = Inr (''</p>'' @ [NL], WalkContinue, None)
   \<and> WalkSkipChildren \<noteq> WalkStop \<and> WalkContinue \<noteq> WalkStop"
proof -
  have wf: "well_formed example_config example_externals [] (Node (Image ''x'' (Some ''t'')) [] []) True"
    using example_title_returns by (simp add: well_formed_def example_externals_def)
  have img: "Render example_config example_externals [] [] (Node (Image ''x'' (Some ''t'')) [] []) None True
       = Inr (''<img src='' @ [DQ] @ ''x'' @ [DQ] @ '' alt='' @ [DQ, DQ] @ '' title='' @ [DQ]
                @ ''t'' @ [DQ] @ ''>'', WalkSkipChildren, None)"
    by (simp add: example_simps renderImage_def Write_t Let_def)
  show ?thesis
    using wf img
      Render_directive[of "Node (Image ''x'' (Some ''t'')) [] []" example_config example_externals
        "[]" True "[]" None]
    by (simp add: example_simps renderImage_def renderCodeSpan_def renderParagraph_def
        RawWrite_ab)
qed

subsection \<open>ListItem\<close>

text \<open>
  Claim C9, as the code has it. On entering a ListItem, \<open>Render\<close> writes \<open><li>\<close> and then
  a newline exactly when the item has a first child and that child is not a TextBlock: an
  item without children, or whose first child is a TextBlock, gets no newline.
\<close>

theorem Render_ListItem_enter:
  assumes "kind n = ListItem"
  shows "Render r u w source n nxt True =
    Inr (w @ ''<li>''
           @ (case Children n of
                [] \<Rightarrow> []
              | fc # rest \<Rightarrow> if kind fc = TextBlock then [] else [NL]),
         WalkContinue, None)"
  using assms
  by (auto simp: Render_def returns_simps renderListItem_def FirstChild_def WriteString_def
      WriteByte_def Let_def split: list.splits Kind.splits)

theorem Render_ListItem_enter_witness:
  "kind (Node ListItem [] [Node Paragraph [] []]) = ListItem
   \<and> Render example_config example_externals [] [] (Node ListItem [] [Node Paragraph [] []]) None True
       = Inr (''<li>'' @ [NL], WalkContinue, None)
   \<and> Render example_config example_externals [] [] (Node ListItem [] [Node TextBlock [] []]) None True
       = Inr (''<li>'', WalkContinue, None)"
  using
    Render_ListItem_enter[of "Node ListItem [] [Node Paragraph [] []]"
      example_config example_externals "[]" "[]" None]
    Render_ListItem_enter[of "Node ListItem [] [Node TextBlock [] []]"
      example_config example_externals "[]" "[]" None]
  by simp

text \<open>
  Claim C9 as stated fails for a ListItem without children: its first child is not a
  TextBlock (there is none), and no newline follows \<open><li>\<close>.
\<close>

theorem Render_ListItem_without_child:
  "kind (Node ListItem [] []) = ListItem
   \<and> \<not> (\<exists>fc rest. Children (Node ListItem [] []) = fc # rest \<and> kind fc = TextBlock)
   \<and> Render example_config example_externals [] [] (Node ListItem [] []) None True
       = Inr (''<li>'', WalkContinue, None)
   \<and> Render example_config example_externals [] [] (Node ListItem [] []) None True
       \<noteq> Inr (''<li>'' @ [NL], WalkContinue, None)"
  by (simp add: example_simps renderListItem_def)

subsection \<open>AutoLink\<close>

text \<open>
  Claim C8, as the code has it. On entering an AutoLink whose value lies within the source,
  \<open>Render\<close> writes the whole anchor: \<open><a href="\<close>, then \<open>mailto:\<close> for an email
  autolink whose lower-cased value does not start with \<open>mailto:\<close>, the URL-escaped and
  HTML-escaped value, \<open>">\<close>, the HTML-escaped value and \<open></a>\<close>; it returns the
  directive Continue.
\<close>

theorem Render_AutoLink_enter:
  assumes "kind n = AutoLink t (Some segment)" "Value segment source = Inr value"
  shows "Render r u w source n nxt True =
    Inr (w @ ''<a href='' @ [DQ]
           @ (if t = AutoLinkEmail \<and> \<not> HasPrefix (ToLower u value) ''mailto:''
              then ''mailto:'' else [])
           @ EscapeHTML u (URLEscape u value False) @ [DQ, CHR ''>'']
           @ EscapeHTML u value @ ''</a>'',
         WalkContinue, None)"
  using assms
  by (simp add: Render_def returns_simps renderAutoLink_def bnd_Inr WriteString_def
      WriteBytes_def Let_def)

theorem Render_AutoLink_enter_witness:
  "kind (Node (AutoLink AutoLinkEmail (Some \<lparr>Start = 1, Stop = 6\<rparr>)) [] [])
     = AutoLink AutoLinkEmail (Some \<lparr>Start = 1, Stop = 6\<rparr>)
   \<and> Value \<lparr>Start = 1, Stop = 6\<rparr> ''<a@b.c>'' = Inr ''a@b.c''
   \<and> Render example_config example_externals [] ''<a@b.c>''
        (Node (AutoLink AutoLinkEmail (Some \<lparr>Start = 1, Stop = 6\<rparr>)) [] []) None True
       = Inr (''<a href='' @ [DQ] @ ''mailto:a@b.c'' @ [DQ] @ ''>a@b.c</a>'', WalkContinue, None)"
proof -
  have v: "Value \<lparr>Start = 1, Stop = 6\<rparr> ''<a@b.c>'' = Inr ''a@b.c''"
    by (simp add: Value_def slice_def)
  show ?thesis
    using v
      Render_AutoLink_enter[of "Node (AutoLink AutoLinkEmail (Some \<lparr>Start = 1, Stop = 6\<rparr>)) [] []"
        AutoLinkEmail "\<lparr>Start = 1, Stop = 6\<rparr>" "''<a@b.c>''" "''a@b.c''"
        example_config example_externals "[]" None]
    by (simp add: example_externals_def HasPrefix_def)
qed

text \<open>
  Claim C8 as stated fails: entering an AutoLink does not return SkipChildren.
\<close>

theorem Render_AutoLink_not_SkipChildren:
  "\<not> (\<exists>w' err. Render example_config example_externals [] ''<a@b.c>''
        (Node (AutoLink AutoLinkEmail (Some \<lparr>Start = 1, Stop = 6\<rparr>)) [] []) None True
       = Inr (w', WalkSkipChildren, err))"
  by (simp add: example_simps renderAutoLink_def Let_def)

end
